theory Spec2Isabelle
  imports Complex_Main
begin

section \<open>Data model of \<open>src/src/trainer.py\<close>\<close>

text \<open>
  The three trained models, in the order of \<open>self._model_names\<close>:
  \<open>["denoiser", "rew_end_model", "actor_critic"]\<close>.
\<close>

datatype component = Denoiser | RewEndModel | ActorCritic

definition model_names :: "component list" where
  "model_names = [Denoiser, RewEndModel, ActorCritic]"

text \<open>The Python exceptions the trainer's own code can raise.\<close>

datatype error = AssertionError | ZeroDivisionError | TypeError

text \<open>
  \<open>getattr(cfg, name).training\<close>: the per-component training section. Only whether
  \<open>max_grad_norm\<close> is \<open>None\<close> matters to the control flow.
\<close>

record training_cfg =
  start_after_epochs :: int
  steps_first_epoch :: int
  steps_per_epoch :: int
  grad_acc_steps :: int
  max_grad_norm :: "rat option"

text \<open>
  The configuration and the flags \<open>__init__\<close> derives from it, flattened:
  \<open>rank\<close> is \<open>self._rank\<close>, \<open>first_epoch_min\<close>, \<open>first_epoch_max\<close>, \<open>threshold_rew\<close>,
  \<open>collect_steps_per_epoch\<close> and \<open>num_steps_total\<close> are the fields of
  \<open>cfg.collection.train\<close>, \<open>num_episodes\<close> and \<open>num_final_episodes\<close> those of
  \<open>cfg.collection.test\<close>; \<open>has_lr_sched name\<close> says that \<open>self.lr_sched.get(name)\<close> is
  not \<open>None\<close>.
\<close>

record cfg =
  rank :: nat
  is_model_free :: bool
  is_static_dataset :: bool
  num_final_epochs :: int
  training_should :: bool
  evaluation_should :: bool
  evaluation_every :: int
  first_epoch_min :: int
  first_epoch_max :: "int option"
  threshold_rew :: int
  collect_steps_per_epoch :: int
  num_steps_total :: int
  num_episodes :: int
  num_final_episodes :: int
  training :: "component \<Rightarrow> training_cfg"
  has_lr_sched :: "component \<Rightarrow> bool"

text \<open>
  Every call the trainer makes on a collaborator (collector, dataset, model, optimiser,
  scheduler, telemetry, checkpoint) is an event. The events \<open>CollectTestCalled\<close>,
  \<open>TrainComponentCalled\<close> and \<open>TestComponentCalled\<close> mark the entry of the trainer's own
  methods with their arguments. \<open>FinalReturnStats returns\<close> is the record of line 403,
  \<open>{"final_return_mean": np.mean(returns), "final_return_std": np.std(returns)}\<close>, appended
  to the logs: the event holds the list the two statistics are taken of, not their
  floating-point values. What the trainer writes through \<open>logger\<close> and \<open>print\<close>, the
  contents of \<open>to_log\<close>, the timing of an epoch and \<open>dist.barrier()\<close> are
  left out: no decision of the trainer reads them.
\<close>

datatype event =
    TrainCollectorSend int
  | TestDatasetClear
  | TestCollectorSend int
  | FinalReturnStats "real list"
  | BroadcastDataset
  | AgentTrain
  | AgentZeroGrad
  | AgentEval
  | CollectTestCalled bool
  | TrainComponentCalled component int
  | TestComponentCalled component
  | ModelTrain component
  | Forward component
  | Backward component
  | ClipGradNorm component
  | OptStep component
  | OptZeroGrad component
  | LrSchedStep component
  | WandbLog
  | SaveCheckpoint
  | WandbFinish

text \<open>
  The mutable fields of the trainer, the state \<open>world\<close> of everything outside it
  (environments, datasets, parameters, other ranks) and the trace of the events so far,
  each with the value of \<open>self.epoch\<close> at the time of the call.
\<close>

record 'w state =
  epoch :: int
  num_epochs_collect :: "int option"
  num_episodes_test :: int
  num_batch_train :: "component \<Rightarrow> int"
  world :: 'w
  trace :: "(int \<times> event) list"

text \<open>
  The collaborators are parameters: \<open>react\<close> is the effect of a call on the outside
  world, \<open>ds_num_steps\<close> and \<open>ds_counts_rew\<close> read \<open>self.train_dataset.num_steps\<close> and
  \<open>self.train_dataset.counts_rew\<close>, and \<open>recv_num_epochs_collect\<close> is the value a rank
  other than 0 receives from \<open>broadcast_if_needed\<close>. \<open>test_returns\<close> reads, after a call of
  the test collector, the \<open>"return"\<close> entries of the episode records in the logs it
  answered with (lines 394 to 396), and \<open>wandb_run_present\<close> says that \<open>wandb.run\<close> is not
  \<open>None\<close>.
\<close>

record 'w collab =
  react :: "event \<Rightarrow> 'w \<Rightarrow> 'w"
  ds_num_steps :: "'w \<Rightarrow> int"
  ds_counts_rew :: "'w \<Rightarrow> int list"
  recv_num_epochs_collect :: "'w \<Rightarrow> int option"
  test_returns :: "'w \<Rightarrow> real list"
  wandb_run_present :: "'w \<Rightarrow> bool"

datatype ('a, 'w) outcome = Returns 'a "'w state" | Raises error "'w state"

fun final_state :: "('a, 'w) outcome \<Rightarrow> 'w state" where
  "final_state (Returns v s) = s"
| "final_state (Raises e s) = s"

text \<open>Sequencing: an exception skips what follows, as it propagates in Python.\<close>

definition and_then :: "('a, 'w) outcome \<Rightarrow> ('w state \<Rightarrow> ('b, 'w) outcome) \<Rightarrow> ('b, 'w) outcome" where
  "and_then r f = (case r of Raises e s \<Rightarrow> Raises e s | Returns _ s \<Rightarrow> f s)"

definition and_then_opt ::
  "('a, 'w) outcome option \<Rightarrow> ('w state \<Rightarrow> ('b, 'w) outcome option) \<Rightarrow> ('b, 'w) outcome option" where
  "and_then_opt r f =
     (case r of None \<Rightarrow> None | Some (Raises e s) \<Rightarrow> Some (Raises e s) | Some (Returns _ s) \<Rightarrow> f s)"

definition emit :: "'w collab \<Rightarrow> event \<Rightarrow> 'w state \<Rightarrow> 'w state" where
  "emit E ev s = s\<lparr>world := react E ev (world s), trace := trace s @ [(epoch s, ev)]\<rparr>"

text \<open>Python's \<open>range(n)\<close>: empty when \<open>n \<le> 0\<close>.\<close>

definition py_range :: "int \<Rightarrow> nat list" where
  "py_range n = [0..<nat n]"

section \<open>\<open>Trainer.train_component\<close>\<close>

text \<open>
  Lines 461 to 470: what happens every \<open>grad_acc_steps\<close> iterations.
\<close>

definition optimizer_update :: "'w collab \<Rightarrow> cfg \<Rightarrow> component \<Rightarrow> 'w state \<Rightarrow> 'w state" where
  "optimizer_update E c name s =
     (let s = (if max_grad_norm (training c name) \<noteq> None then emit E (ClipGradNorm name) s else s);
          s = emit E (OptStep name) s;
          s = emit E (OptZeroGrad name) s;
          s = (if has_lr_sched c name then emit E (LrSchedStep name) s else s)
      in s)"

text \<open>
  The body of \<open>for i in trange(num_steps)\<close>. The test
  \<open>(i + 1) % cfg.grad_acc_steps == 0\<close> raises \<open>ZeroDivisionError\<close> when the divisor is 0;
  Python's \<open>%\<close> on integers is the floored \<open>mod\<close> of HOL otherwise. The batch sampler
  behind a train data loader is an endless sequence, so \<open>next(data_iterator)\<close> yields a
  batch; the forward pass and \<open>loss.backward()\<close> are one event each.
\<close>

definition train_step :: "'w collab \<Rightarrow> cfg \<Rightarrow> component \<Rightarrow> nat \<Rightarrow> 'w state \<Rightarrow> (unit, 'w) outcome" where
  "train_step E c name i s =
     (let tc = training c name;
          s = emit E (Forward name) s;
          s = emit E (Backward name) s;
          s = s\<lparr>num_batch_train := (num_batch_train s)(name := num_batch_train s name + 1)\<rparr>
      in if grad_acc_steps tc = 0 then Raises ZeroDivisionError s
         else if (int i + 1) mod grad_acc_steps tc = 0 then Returns () (optimizer_update E c name s)
         else Returns () s)"

text \<open>The loop over the indices; an exception ends it.\<close>

fun train_steps :: "'w collab \<Rightarrow> cfg \<Rightarrow> component \<Rightarrow> nat list \<Rightarrow> 'w state \<Rightarrow> (unit, 'w) outcome" where
  "train_steps E c name [] s = Returns () s"
| "train_steps E c name (i # is) s =
     and_then (train_step E c name i s) (\<lambda>s. train_steps E c name is s)"

text \<open>
  \<open>num_steps\<close> is computed from the configuration and then overwritten by the
  constant 1000, as in the source.
\<close>

definition train_component :: "'w collab \<Rightarrow> cfg \<Rightarrow> component \<Rightarrow> int \<Rightarrow> 'w state \<Rightarrow> (unit, 'w) outcome" where
  "train_component E c name steps s =
     (let s = emit E (TrainComponentCalled name steps) s;
          s = emit E (ModelTrain name) s;
          s = emit E (OptZeroGrad name) s;
          num_steps = grad_acc_steps (training c name) * steps;
          num_steps = 1000
      in train_steps E c name (py_range num_steps) s)"

section \<open>\<open>Trainer.train_agent\<close> and \<open>Trainer.test_agent\<close>\<close>

text \<open>The loop \<open>for name in model_names\<close> of \<open>train_agent\<close>; an exception ends it.\<close>

fun train_components :: "'w collab \<Rightarrow> cfg \<Rightarrow> component list \<Rightarrow> 'w state \<Rightarrow> (unit, 'w) outcome" where
  "train_components E c [] s = Returns () s"
| "train_components E c (name # names) s =
     (let tc = training c name
      in if epoch s > start_after_epochs tc
         then (let steps = (if epoch s = 1 then steps_first_epoch tc else steps_per_epoch tc)
               in and_then (train_component E c name steps s) (\<lambda>s. train_components E c names s))
         else train_components E c names s)"

definition train_agent :: "'w collab \<Rightarrow> cfg \<Rightarrow> 'w state \<Rightarrow> (unit, 'w) outcome" where
  "train_agent E c s =
     (let s = emit E AgentTrain s;
          s = emit E AgentZeroGrad s;
          names = (if is_model_free c then [ActorCritic] else model_names)
      in train_components E c names s)"

text \<open>
  \<open>test_component\<close> walks a test data loader whose length the trainer does not decide;
  it is one event.
\<close>

definition test_component :: "'w collab \<Rightarrow> component \<Rightarrow> 'w state \<Rightarrow> 'w state" where
  "test_component E name s = emit E (TestComponentCalled name) s"

fun test_components :: "'w collab \<Rightarrow> cfg \<Rightarrow> component list \<Rightarrow> 'w state \<Rightarrow> 'w state" where
  "test_components E c [] s = s"
| "test_components E c (name # names) s =
     (if epoch s > start_after_epochs (training c name)
      then test_components E c names (test_component E name s)
      else test_components E c names s)"

definition test_agent :: "'w collab \<Rightarrow> cfg \<Rightarrow> 'w state \<Rightarrow> 'w state" where
  "test_agent E c s =
     (let s = emit E AgentEval s;
          names = (if is_model_free c then [] else butlast model_names)
      in test_components E c names s)"

section \<open>\<open>Trainer.collect_test\<close>\<close>

definition collect_test :: "'w collab \<Rightarrow> cfg \<Rightarrow> bool \<Rightarrow> 'w state \<Rightarrow> 'w state" where
  "collect_test E c final s =
     (let s = emit E (CollectTestCalled final) s;
          episodes = (if final then num_final_episodes c else num_episodes c);
          s = emit E TestDatasetClear s;
          s = emit E (TestCollectorSend episodes) s;
          returns = test_returns E (world s);
          s = s\<lparr>num_episodes_test := num_episodes_test s + episodes\<rparr>;
          s = (if final then emit E (FinalReturnStats returns) s else s)
      in s)"

section \<open>\<open>Trainer.collect_initial_dataset\<close>\<close>

text \<open>
  \<open>sum(sorted(self.train_dataset.counts_rew)[:-1])\<close>: the sum of all counts but the
  largest; 0 for an empty list.
\<close>

definition total_minority_rew :: "int list \<Rightarrow> int" where
  "total_minority_rew counts = sum_list (butlast (sort counts))"

text \<open>
  The \<open>while True\<close> loop. It returns the last \<open>num_steps\<close> it read and the state; it has
  no bound of its own, so not returning is the value \<open>None\<close>.
\<close>

partial_function (option) collect_loop :: "'w collab \<Rightarrow> cfg \<Rightarrow> int \<Rightarrow> 'w state \<Rightarrow> (int \<times> 'w state) option" where
  "collect_loop E c steps s =
     (let s = emit E (TrainCollectorSend steps) s;
          num_steps = ds_num_steps E (world s)
      in if total_minority_rew (ds_counts_rew E (world s)) \<ge> threshold_rew c then Some (num_steps, s)
         else if (case first_epoch_max c of None \<Rightarrow> False | Some max_steps \<Rightarrow> num_steps \<ge> max_steps)
         then Some (num_steps, s)
         else collect_loop E c (collect_steps_per_epoch c) s)"

text \<open>
  The two \<open>assert\<close>s raise \<open>AssertionError\<close>; \<open>min_steps % steps_per_epoch\<close> raises
  \<open>ZeroDivisionError\<close> when \<open>steps_per_epoch\<close> is 0. \<open>//\<close> is the floored \<open>div\<close>.
\<close>

definition collect_initial_dataset :: "'w collab \<Rightarrow> cfg \<Rightarrow> 'w state \<Rightarrow> (int, 'w) outcome option" where
  "collect_initial_dataset E c s =
     (let min_steps = first_epoch_min c;
          steps_per_epoch = collect_steps_per_epoch c
      in if steps_per_epoch = 0 then Some (Raises ZeroDivisionError s)
         else if min_steps mod steps_per_epoch \<noteq> 0 then Some (Raises AssertionError s)
         else (case collect_loop E c min_steps s of
                 None \<Rightarrow> None
               | Some (num_steps, s) \<Rightarrow>
                   (let remaining_steps = num_steps_total c - num_steps
                    in if remaining_steps mod steps_per_epoch \<noteq> 0 then Some (Raises AssertionError s)
                       else Some (Returns (remaining_steps div steps_per_epoch) s))))"

section \<open>\<open>Trainer.run\<close>\<close>

definition save_checkpoint :: "'w collab \<Rightarrow> cfg \<Rightarrow> 'w state \<Rightarrow> 'w state" where
  "save_checkpoint E c s = (if rank c = 0 then emit E SaveCheckpoint s else s)"

text \<open>
  The two flags of the loop body, with Python's short-circuit \<open>and\<close>: the comparison
  with \<open>self.num_epochs_collect\<close> raises \<open>TypeError\<close> on \<open>None\<close>, the \<open>%\<close> raises
  \<open>ZeroDivisionError\<close> on 0, each only when it is reached.
\<close>

definition should_collect_train :: "cfg \<Rightarrow> 'w state \<Rightarrow> error + bool" where
  "should_collect_train c s =
     (if rank c = 0 \<and> \<not> is_model_free c \<and> \<not> is_static_dataset c
      then (case num_epochs_collect s of None \<Rightarrow> Inl TypeError | Some k \<Rightarrow> Inr (epoch s \<le> k))
      else Inr False)"

definition should_test :: "cfg \<Rightarrow> 'w state \<Rightarrow> error + bool" where
  "should_test c s =
     (if rank c = 0 \<and> evaluation_should c
      then (if evaluation_every c = 0 then Inl ZeroDivisionError
            else Inr (epoch s mod evaluation_every c = 0))
      else Inr False)"

text \<open>
  The body of the \<open>while\<close> loop after \<open>self.epoch += 1\<close>, in its four parts:
  lines 302 to 309, 311 to 313, 316 to 325 and 328 to 336.
\<close>

definition train_collection :: "'w collab \<Rightarrow> cfg \<Rightarrow> 'w state \<Rightarrow> (unit, 'w) outcome" where
  "train_collection E c s =
     (case should_collect_train c s of
        Inl e \<Rightarrow> Raises e s
      | Inr collect_train \<Rightarrow>
          (let s = (if collect_train then emit E (TrainCollectorSend (collect_steps_per_epoch c)) s else s);
               s = emit E BroadcastDataset s
           in Returns () s))"

definition training_phase :: "'w collab \<Rightarrow> cfg \<Rightarrow> 'w state \<Rightarrow> (unit, 'w) outcome" where
  "training_phase E c s = (if training_should c then train_agent E c s else Returns () s)"

definition evaluation :: "'w collab \<Rightarrow> cfg \<Rightarrow> 'w state \<Rightarrow> (unit, 'w) outcome" where
  "evaluation E c s =
     (case should_test c s of
        Inl e \<Rightarrow> Raises e s
      | Inr test \<Rightarrow>
          (let should_collect_test = (test \<and> \<not> is_static_dataset c);
               s = (if should_collect_test then collect_test E c False s else s);
               s = (if test \<and> \<not> is_model_free c then test_agent E c s else s)
           in Returns () s))"

definition logging_and_checkpoint :: "'w collab \<Rightarrow> cfg \<Rightarrow> 'w state \<Rightarrow> 'w state" where
  "logging_and_checkpoint E c s =
     (let s = (if rank c = 0 then emit E WandbLog s else s)
      in save_checkpoint E c s)"

definition epoch_body :: "'w collab \<Rightarrow> cfg \<Rightarrow> 'w state \<Rightarrow> (unit, 'w) outcome" where
  "epoch_body E c s =
     and_then (train_collection E c s) (\<lambda>s.
     and_then (training_phase E c s) (\<lambda>s.
     and_then (evaluation E c s) (\<lambda>s.
     Returns () (logging_and_checkpoint E c s))))"

text \<open>\<open>while self.epoch < num_epochs\<close>; an exception in the body ends the loop.\<close>

function epoch_loop :: "'w collab \<Rightarrow> cfg \<Rightarrow> int \<Rightarrow> 'w state \<Rightarrow> (unit, 'w) outcome" where
  "epoch_loop E c num_epochs s =
     (if epoch s < num_epochs
      then (case epoch_body E c (s\<lparr>epoch := epoch s + 1\<rparr>) of
              Raises e s' \<Rightarrow> Raises e s'
            | Returns _ s' \<Rightarrow> epoch_loop E c num_epochs s')
      else Returns () s)"
  by pat_completeness auto

text \<open>
  Lines 274 to 285: the initial collection, on rank 0 only, then the broadcast of
  \<open>num_epochs_collect\<close> and of the train dataset. Rank 0 is the source of the broadcast and
  keeps its own value.
\<close>

definition rank0_initial_collection :: "'w collab \<Rightarrow> cfg \<Rightarrow> 'w state \<Rightarrow> (unit, 'w) outcome option" where
  "rank0_initial_collection E c s =
     (case collect_initial_dataset E c s of
        None \<Rightarrow> None
      | Some (Raises e s) \<Rightarrow> Some (Raises e s)
      | Some (Returns n s) \<Rightarrow> Some (Returns () (s\<lparr>num_epochs_collect := Some n\<rparr>)))"

definition broadcast_initial :: "'w collab \<Rightarrow> cfg \<Rightarrow> 'w state \<Rightarrow> 'w state" where
  "broadcast_initial E c s =
     (let s = s\<lparr>num_epochs_collect :=
                  (if rank c = 0 then num_epochs_collect s else recv_num_epochs_collect E (world s))\<rparr>
      in emit E BroadcastDataset s)"

definition initial_collection :: "'w collab \<Rightarrow> cfg \<Rightarrow> 'w state \<Rightarrow> (unit, 'w) outcome option" where
  "initial_collection E c s =
     (if epoch s = 0
      then (if is_model_free c \<or> is_static_dataset c
            then Some (Returns () (s\<lparr>num_epochs_collect := Some 0\<rparr>))
            else and_then_opt
                   (if rank c = 0 then rank0_initial_collection E c s else Some (Returns () s))
                   (\<lambda>s. Some (Returns () (broadcast_initial E c s))))
      else Some (Returns () s))"

text \<open>Lines 341 to 344: the last collect.\<close>

definition last_collect :: "'w collab \<Rightarrow> cfg \<Rightarrow> 'w state \<Rightarrow> 'w state" where
  "last_collect E c s =
     (if rank c = 0 \<and> \<not> is_static_dataset c
      then emit E WandbLog (collect_test E c True s)
      else s)"

text \<open>Lines 346 to 348: the final sync.\<close>

definition final_sync :: "'w collab \<Rightarrow> cfg \<Rightarrow> 'w state \<Rightarrow> 'w state" where
  "final_sync E c s =
     (if rank c = 0 \<and> wandb_run_present E (world s) then emit E WandbFinish s else s)"

text \<open>
  \<open>num_epochs\<close> is computed from \<open>self.num_epochs_collect\<close> (a \<open>TypeError\<close> when it is
  \<open>None\<close>) and then overwritten by the constant 2, as in the source.
\<close>

definition run :: "'w collab \<Rightarrow> cfg \<Rightarrow> 'w state \<Rightarrow> (unit, 'w) outcome option" where
  "run E c s =
     and_then_opt (initial_collection E c s) (\<lambda>s.
       case num_epochs_collect s of
         None \<Rightarrow> Some (Raises TypeError s)
       | Some k \<Rightarrow>
           (let num_epochs = k + num_final_epochs c;
                num_epochs = 2
            in Some (and_then (epoch_loop E c num_epochs s) (\<lambda>s.
                 Returns () (final_sync E c (last_collect E c s))))))"

section \<open>Reading traces\<close>

text \<open>The events a call added: what the trace of \<open>s'\<close> has beyond that of \<open>s\<close>.\<close>

definition new_events :: "'w state \<Rightarrow> 'w state \<Rightarrow> (int \<times> event) list" where
  "new_events s s' = drop (length (trace s)) (trace s')"

definition trace_ext :: "(event \<Rightarrow> bool) \<Rightarrow> 'w state \<Rightarrow> 'w state \<Rightarrow> bool" where
  "trace_ext P s s' \<longleftrightarrow> (\<exists>evs. trace s' = trace s @ evs \<and> (\<forall>x\<in>set evs. P (snd x)))"

text \<open>
  The outside world after a list of events, and the relation of a state to a later one
  whose world is that of the earlier after the events between them.
\<close>

definition replay :: "'w collab \<Rightarrow> 'w \<Rightarrow> (int \<times> event) list \<Rightarrow> 'w" where
  "replay E w evs = foldl (\<lambda>w x. react E (snd x) w) w evs"

definition world_follows :: "'w collab \<Rightarrow> 'w state \<Rightarrow> 'w state \<Rightarrow> bool" where
  "world_follows E s s' \<longleftrightarrow> (\<exists>evs. trace s' = trace s @ evs \<and> world s' = replay E (world s) evs)"

definition same_ctl :: "'w state \<Rightarrow> 'w state \<Rightarrow> bool" where
  "same_ctl s s' \<longleftrightarrow> epoch s' = epoch s \<and> num_epochs_collect s' = num_epochs_collect s"

text \<open>The model an event of \<open>train_component\<close> belongs to.\<close>

fun event_component :: "event \<Rightarrow> component option" where
  "event_component (TrainComponentCalled name k) = Some name"
| "event_component (ModelTrain name) = Some name"
| "event_component (Forward name) = Some name"
| "event_component (Backward name) = Some name"
| "event_component (ClipGradNorm name) = Some name"
| "event_component (OptStep name) = Some name"
| "event_component (OptZeroGrad name) = Some name"
| "event_component (LrSchedStep name) = Some name"
| "event_component ev = None"

text \<open>
  Environment interaction through the collectors (\<open>collect_test\<close> with all it does, and
  the train collector) and evaluation (\<open>test_agent\<close>, \<open>test_component\<close>).
\<close>

fun collects_or_evaluates :: "event \<Rightarrow> bool" where
  "collects_or_evaluates (TrainCollectorSend k) = True"
| "collects_or_evaluates TestDatasetClear = True"
| "collects_or_evaluates (TestCollectorSend k) = True"
| "collects_or_evaluates (FinalReturnStats returns) = True"
| "collects_or_evaluates (CollectTestCalled final) = True"
| "collects_or_evaluates AgentEval = True"
| "collects_or_evaluates (TestComponentCalled name) = True"
| "collects_or_evaluates ev = False"

text \<open>
  The events the body of the epoch loop can add under a configuration: training on every
  rank, everything else but the broadcast on rank 0 only, and never what belongs to the
  final collection.
\<close>

fun loop_event :: "cfg \<Rightarrow> event \<Rightarrow> bool" where
  "loop_event c (TrainCollectorSend k) = (rank c = 0)"
| "loop_event c TestDatasetClear = (rank c = 0)"
| "loop_event c (TestCollectorSend k) = (rank c = 0)"
| "loop_event c (FinalReturnStats returns) = False"
| "loop_event c WandbFinish = False"
| "loop_event c (CollectTestCalled final) = (rank c = 0 \<and> \<not> final)"
| "loop_event c AgentEval = (rank c = 0)"
| "loop_event c (TestComponentCalled name) = (rank c = 0)"
| "loop_event c WandbLog = (rank c = 0)"
| "loop_event c SaveCheckpoint = (rank c = 0)"
| "loop_event c ev = True"

text \<open>The calls of \<open>train_component\<close> in a trace, with their arguments, in order.\<close>

fun train_calls :: "(int \<times> event) list \<Rightarrow> (component \<times> int) list" where
  "train_calls [] = []"
| "train_calls ((e, TrainComponentCalled name k) # evs) = (name, k) # train_calls evs"
| "train_calls (x # evs) = train_calls evs"

text \<open>How often an event occurs in a trace, and the epochs at which it does.\<close>

definition occurrences :: "event \<Rightarrow> (int \<times> event) list \<Rightarrow> nat" where
  "occurrences ev evs = length (filter (\<lambda>x. snd x = ev) evs)"

definition epochs_of :: "event \<Rightarrow> (int \<times> event) list \<Rightarrow> int list" where
  "epochs_of ev evs = map fst (filter (\<lambda>x. snd x = ev) evs)"

text \<open>
  The two \<open>break\<close> tests of the loop of \<open>collect_initial_dataset\<close>, on the state after an
  increment, and the state after \<open>n + 1\<close> increments that start with \<open>steps\<close> steps.
\<close>

definition collection_complete :: "'w collab \<Rightarrow> cfg \<Rightarrow> 'w state \<Rightarrow> bool" where
  "collection_complete E c s \<longleftrightarrow>
     total_minority_rew (ds_counts_rew E (world s)) \<ge> threshold_rew c
     \<or> (case first_epoch_max c of None \<Rightarrow> False | Some max_steps \<Rightarrow> ds_num_steps E (world s) \<ge> max_steps)"

fun increments :: "'w collab \<Rightarrow> cfg \<Rightarrow> int \<Rightarrow> 'w state \<Rightarrow> nat \<Rightarrow> 'w state" where
  "increments E c steps s 0 = emit E (TrainCollectorSend steps) s"
| "increments E c steps s (Suc n) =
     increments E c (collect_steps_per_epoch c) (emit E (TrainCollectorSend steps) s) n"

section \<open>Example configurations\<close>

definition example_training :: "component \<Rightarrow> training_cfg" where
  "example_training name =
     \<lparr>start_after_epochs = (case name of Denoiser \<Rightarrow> 0 | RewEndModel \<Rightarrow> 0 | ActorCritic \<Rightarrow> 5),
      steps_first_epoch = 16, steps_per_epoch = 8, grad_acc_steps = 4,
      max_grad_norm = Some 1\<rparr>"

definition example_cfg :: cfg where
  "example_cfg =
     \<lparr>rank = 0, is_model_free = False, is_static_dataset = False, num_final_epochs = 5,
      training_should = False, evaluation_should = True, evaluation_every = 5,
      first_epoch_min = 100, first_epoch_max = None, threshold_rew = 10,
      collect_steps_per_epoch = 20, num_steps_total = 1132,
      num_episodes = 4, num_final_episodes = 100,
      training = example_training, has_lr_sched = (\<lambda>name. True)\<rparr>"

text \<open>
  An outside world that is the reward histogram of the train dataset: the first
  collection leaves the counts 0, 100 and 5, every later one 0, 120 and 12.
\<close>

definition example_collab :: "int list collab" where
  "example_collab =
     \<lparr>react = (\<lambda>ev counts. case ev of
                 TrainCollectorSend k \<Rightarrow> (if counts = [] then [0, 100, 5] else [0, 120, 12])
               | _ \<Rightarrow> counts),
      ds_num_steps = sum_list,
      ds_counts_rew = (\<lambda>counts. counts),
      recv_num_epochs_collect = (\<lambda>counts. Some 50),
      test_returns = (\<lambda>counts. [1, 3]),
      wandb_run_present = (\<lambda>counts. True)\<rparr>"

definition initial_state :: "int list state" where
  "initial_state =
     \<lparr>epoch = 0, num_epochs_collect = None, num_episodes_test = 0,
      num_batch_train = (\<lambda>name. 0), world = [], trace = []\<rparr>"

section \<open>Basic facts\<close>

declare collect_loop.simps [code]

lemma and_then_opt_simps [simp]:
  "and_then_opt None f = None"
  "and_then_opt (Some (Returns u s)) f = f s"
  "and_then_opt (Some (Raises e s)) f = Some (Raises e s)"
  by (simp_all add: and_then_opt_def)

lemma and_then_simps [simp]:
  "and_then (Returns u s) f = f s"
  "and_then (Raises e s) f = Raises e s"
  by (simp_all add: and_then_def)

subsection \<open>No call but \<open>self.epoch += 1\<close> changes the epoch\<close>

lemma epoch_emit [simp]: "epoch (emit E ev s) = epoch s"
  by (simp add: emit_def)

lemma trace_emit [simp]: "trace (emit E ev s) = trace s @ [(epoch s, ev)]"
  by (simp add: emit_def)

lemma nec_emit [simp]: "num_epochs_collect (emit E ev s) = num_epochs_collect s"
  by (simp add: emit_def)

lemma epoch_and_then:
  assumes "epoch (final_state r) = e" and "\<And>t. epoch t = e \<Longrightarrow> epoch (final_state (f t)) = e"
  shows "epoch (final_state (and_then r f)) = e"
  using assms by (cases r) simp_all

lemma epoch_optimizer_update [simp]: "epoch (optimizer_update E c name s) = epoch s"
  by (simp add: optimizer_update_def Let_def)

lemma epoch_train_step: "epoch (final_state (train_step E c name i s)) = epoch s"
  by (simp add: train_step_def Let_def)

lemma epoch_train_steps: "epoch (final_state (train_steps E c name is s)) = epoch s"
proof (induction "is" arbitrary: s)
  case Nil
  show ?case by simp
next
  case (Cons i "is")
  show ?case
    using epoch_train_step[of E c name i s] Cons.IH
    by (simp add: epoch_and_then)
qed

lemma epoch_train_component: "epoch (final_state (train_component E c name k s)) = epoch s"
  by (simp add: train_component_def Let_def epoch_train_steps)

lemma epoch_train_components: "epoch (final_state (train_components E c names s)) = epoch s"
proof (induction names arbitrary: s)
  case Nil
  show ?case by simp
next
  case (Cons name names)
  show ?case
    using epoch_train_component[of E c name _ s] Cons.IH
    by (simp add: Let_def epoch_and_then)
qed

lemma epoch_train_agent: "epoch (final_state (train_agent E c s)) = epoch s"
  by (simp add: train_agent_def Let_def epoch_train_components)

lemma epoch_test_components [simp]: "epoch (test_components E c names s) = epoch s"
  by (induction names arbitrary: s) (simp_all add: test_component_def)

lemma epoch_test_agent [simp]: "epoch (test_agent E c s) = epoch s"
  by (simp add: test_agent_def Let_def)

lemma epoch_collect_test [simp]: "epoch (collect_test E c final s) = epoch s"
  by (simp add: collect_test_def Let_def)

lemma epoch_save_checkpoint [simp]: "epoch (save_checkpoint E c s) = epoch s"
  by (simp add: save_checkpoint_def)

lemma epoch_train_collection: "epoch (final_state (train_collection E c s)) = epoch s"
  by (simp add: train_collection_def Let_def split: sum.split)

lemma epoch_training_phase: "epoch (final_state (training_phase E c s)) = epoch s"
  by (simp add: training_phase_def epoch_train_agent)

lemma epoch_evaluation: "epoch (final_state (evaluation E c s)) = epoch s"
  by (simp add: evaluation_def Let_def split: sum.split)

lemma epoch_logging [simp]: "epoch (logging_and_checkpoint E c s) = epoch s"
  by (simp add: logging_and_checkpoint_def Let_def)

lemma epoch_epoch_body: "epoch (final_state (epoch_body E c s)) = epoch s"
  unfolding epoch_body_def
  by (intro epoch_and_then) (simp_all add: epoch_train_collection epoch_training_phase epoch_evaluation)

text \<open>So the epoch loop ends: each iteration brings \<open>self.epoch\<close> closer to \<open>num_epochs\<close>.\<close>

termination epoch_loop
proof (relation "measure (\<lambda>(E, c, n, s). nat (n - epoch s))")
  show "wf (measure (\<lambda>(E, c, n, s). nat (n - epoch s)))" by simp
next
  fix E :: "'a collab" and c n and s :: "'a state" and x s'
  assume lt: "epoch s < n" and b: "epoch_body E c (s\<lparr>epoch := epoch s + 1\<rparr>) = Returns x s'"
  have "epoch s' = epoch s + 1"
    using epoch_epoch_body[of E c "s\<lparr>epoch := epoch s + 1\<rparr>"] b by simp
  with lt show "((E, c, n, s'), (E, c, n, s)) \<in> measure (\<lambda>(E, c, n, s). nat (n - epoch s))"
    by simp
qed



subsection \<open>Nor does any call of the loop body change \<open>self.num_epochs_collect\<close>\<close>

lemma same_ctl_refl [simp]: "same_ctl s s"
  by (simp add: same_ctl_def)

lemma same_ctl_trans: "same_ctl s t \<Longrightarrow> same_ctl t u \<Longrightarrow> same_ctl s u"
  by (simp add: same_ctl_def)

lemma same_ctl_emit [simp]: "same_ctl s (emit E ev t) = same_ctl s t"
  by (simp add: same_ctl_def emit_def)

lemma same_ctl_and_then:
  assumes "same_ctl s (final_state r)" and "\<And>t. same_ctl t (final_state (f t))"
  shows "same_ctl s (final_state (and_then r f))"
proof (cases r)
  case (Returns u t)
  with assms(1) assms(2)[of t] show ?thesis by (auto intro: same_ctl_trans)
next
  case (Raises e t)
  with assms(1) show ?thesis by simp
qed

lemma same_ctl_train_step: "same_ctl s (final_state (train_step E c name i s))"
  by (simp add: train_step_def optimizer_update_def Let_def same_ctl_def)

lemma same_ctl_train_steps: "same_ctl s (final_state (train_steps E c name is s))"
proof (induction "is" arbitrary: s)
  case Nil
  show ?case by simp
next
  case (Cons i "is")
  show ?case using Cons.IH by (auto intro!: same_ctl_and_then same_ctl_train_step)
qed

lemma same_ctl_train_component: "same_ctl s (final_state (train_component E c name k s))"
proof -
  have "same_ctl t (final_state (train_steps E c name is t))" for t "is"
    by (rule same_ctl_train_steps)
  then show ?thesis
    unfolding train_component_def Let_def
    by (rule same_ctl_trans[rotated]) simp
qed

lemma same_ctl_train_components: "same_ctl s (final_state (train_components E c names s))"
proof (induction names arbitrary: s)
  case Nil
  show ?case by simp
next
  case (Cons name names)
  show ?case using Cons.IH
    by (auto simp: Let_def intro!: same_ctl_and_then same_ctl_train_component)
qed

lemma same_ctl_train_agent: "same_ctl s (final_state (train_agent E c s))"
  unfolding train_agent_def Let_def
  by (rule same_ctl_trans[OF _ same_ctl_train_components]) simp

lemma same_ctl_test_components: "same_ctl s (test_components E c names s)"
proof (induction names arbitrary: s)
  case Nil
  show ?case by simp
next
  case (Cons name names)
  have "same_ctl s (test_component E name s)" by (simp add: test_component_def)
  with Cons.IH show ?case by (auto intro: same_ctl_trans)
qed

lemma same_ctl_test_agent: "same_ctl s (test_agent E c s)"
  unfolding test_agent_def Let_def
  by (rule same_ctl_trans[OF _ same_ctl_test_components]) simp

lemma same_ctl_collect_test: "same_ctl s (collect_test E c final s)"
  by (simp add: collect_test_def Let_def same_ctl_def)

lemma same_ctl_train_collection: "same_ctl s (final_state (train_collection E c s))"
  by (simp add: train_collection_def Let_def split: sum.split)

lemma same_ctl_training_phase: "same_ctl s (final_state (training_phase E c s))"
  by (simp add: training_phase_def same_ctl_train_agent)

lemma same_ctl_evaluation: "same_ctl s (final_state (evaluation E c s))"
proof -
  have "same_ctl s (test_agent E c (collect_test E c False s))"
    by (rule same_ctl_trans[OF same_ctl_collect_test same_ctl_test_agent])
  then show ?thesis
    by (simp add: evaluation_def Let_def same_ctl_collect_test same_ctl_test_agent split: sum.split)
qed

lemma same_ctl_logging: "same_ctl s (logging_and_checkpoint E c s)"
  by (simp add: logging_and_checkpoint_def save_checkpoint_def Let_def)

lemma same_ctl_epoch_body: "same_ctl s (final_state (epoch_body E c s))"
  unfolding epoch_body_def
  by (intro same_ctl_and_then same_ctl_train_collection same_ctl_training_phase
        same_ctl_evaluation) (simp add: same_ctl_logging)

subsection \<open>What a call adds to the trace\<close>

lemma trace_ext_refl [simp]: "trace_ext P s s"
  by (simp add: trace_ext_def)

lemma trace_ext_trans: "trace_ext P s t \<Longrightarrow> trace_ext P t u \<Longrightarrow> trace_ext P s u"
  unfolding trace_ext_def by (metis UnE append.assoc set_append)

lemma trace_ext_emit: "P ev \<Longrightarrow> trace_ext P s t \<Longrightarrow> trace_ext P s (emit E ev t)"
  unfolding trace_ext_def by auto

lemma trace_ext_mono: "trace_ext P s t \<Longrightarrow> (\<And>ev. P ev \<Longrightarrow> Q ev) \<Longrightarrow> trace_ext Q s t"
  unfolding trace_ext_def by auto

lemma trace_ext_trace_eq: "trace t' = trace t \<Longrightarrow> trace_ext P s t' = trace_ext P s t"
  by (simp add: trace_ext_def)

lemma trace_ext_and_then:
  assumes "trace_ext P s (final_state r)" and "\<And>t. trace_ext P t (final_state (f t))"
  shows "trace_ext P s (final_state (and_then r f))"
proof (cases r)
  case (Returns u t)
  with assms(1) assms(2)[of t] show ?thesis by (auto intro: trace_ext_trans)
next
  case (Raises e t)
  with assms(1) show ?thesis by simp
qed

lemma trace_ext_new_events:
  assumes "trace_ext P s s'"
  shows "trace s' = trace s @ new_events s s'" and "\<forall>x\<in>set (new_events s s'). P (snd x)"
  using assms unfolding trace_ext_def new_events_def by auto

lemma trace_ext_optimizer_update:
  assumes "\<And>ev. event_component ev = Some name \<Longrightarrow> (\<forall>k. ev \<noteq> TrainComponentCalled name k) \<Longrightarrow> P ev"
  shows "trace_ext P s (optimizer_update E c name s)"
  unfolding optimizer_update_def Let_def
  by (auto intro!: trace_ext_emit assms)

lemma trace_ext_train_step:
  assumes "\<And>ev. event_component ev = Some name \<Longrightarrow> (\<forall>k. ev \<noteq> TrainComponentCalled name k) \<Longrightarrow> P ev"
  shows "trace_ext P s (final_state (train_step E c name i s))"
proof -
  let ?t = "emit E (Backward name) (emit E (Forward name) s)"
  let ?u = "?t\<lparr>num_batch_train := (num_batch_train ?t)(name := num_batch_train ?t name + 1)\<rparr>"
  have "trace_ext P s ?t" by (auto intro!: trace_ext_emit assms)
  then have u: "trace_ext P s ?u" by (simp add: trace_ext_def)
  have "trace_ext P ?u (optimizer_update E c name ?u)"
    by (rule trace_ext_optimizer_update) (rule assms)
  with u have "trace_ext P s (optimizer_update E c name ?u)" by (rule trace_ext_trans)
  with u show ?thesis by (simp add: train_step_def Let_def)
qed

lemma trace_ext_train_steps:
  assumes "\<And>ev. event_component ev = Some name \<Longrightarrow> (\<forall>k. ev \<noteq> TrainComponentCalled name k) \<Longrightarrow> P ev"
  shows "trace_ext P s (final_state (train_steps E c name is s))"
proof (induction "is" arbitrary: s)
  case Nil
  show ?case by simp
next
  case (Cons i "is")
  show ?case using Cons.IH
    by (auto intro!: trace_ext_and_then trace_ext_train_step assms)
qed

lemma trace_ext_train_component:
  assumes "\<And>ev. event_component ev = Some name \<Longrightarrow> P ev"
  shows "trace_ext P s (final_state (train_component E c name k s))"
proof -
  let ?t = "emit E (OptZeroGrad name) (emit E (ModelTrain name) (emit E (TrainComponentCalled name k) s))"
  have "trace_ext P s ?t" by (auto intro!: trace_ext_emit assms)
  moreover have "trace_ext P ?t (final_state (train_steps E c name (py_range 1000) ?t))"
    by (rule trace_ext_train_steps) (simp add: assms)
  ultimately show ?thesis
    unfolding train_component_def Let_def by (rule trace_ext_trans)
qed

lemma trace_ext_train_components:
  assumes "\<And>ev name. name \<in> set names \<Longrightarrow> event_component ev = Some name \<Longrightarrow> P ev"
  shows "trace_ext P s (final_state (train_components E c names s))"
  using assms
proof (induction names arbitrary: s)
  case Nil
  show ?case by simp
next
  case (Cons name names)
  have "P ev" if "event_component ev = Some name" for ev
    using Cons.prems[of name ev] that by simp
  then have a: "trace_ext P t (final_state (train_component E c name k t))" for t k
    by (rule trace_ext_train_component)
  have "P ev" if "n \<in> set names" "event_component ev = Some n" for ev n
    using Cons.prems[of n ev] that by simp
  then have b: "trace_ext P t (final_state (train_components E c names t))" for t
    by (rule Cons.IH)
  show ?case using a b by (auto simp: Let_def intro!: trace_ext_and_then)
qed

lemma trace_ext_train_agent:
  assumes "P AgentTrain" "P AgentZeroGrad"
    and "\<And>ev name. name \<in> set (if is_model_free c then [ActorCritic] else model_names)
           \<Longrightarrow> event_component ev = Some name \<Longrightarrow> P ev"
  shows "trace_ext P s (final_state (train_agent E c s))"
proof -
  let ?t = "emit E AgentZeroGrad (emit E AgentTrain s)"
  have "trace_ext P s ?t" by (auto intro!: trace_ext_emit assms)
  moreover have "trace_ext P ?t (final_state (train_components E c
      (if is_model_free c then [ActorCritic] else model_names) ?t))"
    by (rule trace_ext_train_components) (rule assms(3))
  ultimately show ?thesis
    unfolding train_agent_def Let_def by (rule trace_ext_trans)
qed

section \<open>The divisibility contract of the initial collection\<close>

text \<open>
  Claim C3. \<open>collect_initial_dataset\<close> fails whenever the configured first-epoch minimum
  step count is not divisible by \<open>steps_per_epoch\<close>: it raises before any collection, with
  the state unchanged. The exception is the \<open>AssertionError\<close> of the \<open>assert\<close>, or the
  \<open>ZeroDivisionError\<close> of the \<open>%\<close> itself when \<open>steps_per_epoch\<close> is 0.
\<close>

theorem collect_initial_dataset_requires_divisibility:
  assumes "first_epoch_min c mod collect_steps_per_epoch c \<noteq> 0"
  shows "collect_initial_dataset E c s =
           Some (Raises (if collect_steps_per_epoch c = 0 then ZeroDivisionError else AssertionError) s)"
  using assms by (simp add: collect_initial_dataset_def)

theorem collect_initial_dataset_requires_divisibility_witness:
  "collect_initial_dataset example_collab (example_cfg\<lparr>first_epoch_min := 110\<rparr>) initial_state =
     Some (Raises AssertionError initial_state)"
  using collect_initial_dataset_requires_divisibility
          [of "example_cfg\<lparr>first_epoch_min := 110\<rparr>" example_collab initial_state]
  by (simp add: example_cfg_def)

subsection \<open>Calls of \<open>train_component\<close> in a trace\<close>

lemma train_calls_append: "train_calls (xs @ ys) = train_calls xs @ train_calls ys"
  by (induction xs rule: train_calls.induct) simp_all

lemma train_calls_mem:
  "(name, k) \<in> set (train_calls evs) \<Longrightarrow> \<exists>e. (e, TrainComponentCalled name k) \<in> set evs"
  by (induction evs rule: train_calls.induct) auto

lemma train_calls_none:
  assumes "\<forall>x\<in>set evs. \<forall>name k. snd x \<noteq> TrainComponentCalled name k"
  shows "train_calls evs = []"
proof (rule ccontr)
  assume "train_calls evs \<noteq> []"
  then obtain name k where "(name, k) \<in> set (train_calls evs)"
    by (cases "train_calls evs") auto
  then obtain e where "(e, TrainComponentCalled name k) \<in> set evs"
    using train_calls_mem by blast
  with assms show False by force
qed

lemma train_calls_trace_ext:
  assumes "trace_ext (\<lambda>ev. \<forall>name k. ev \<noteq> TrainComponentCalled name k) s s'"
  shows "train_calls (trace s') = train_calls (trace s)"
proof -
  from assms obtain evs where "trace s' = trace s @ evs"
    and "\<forall>x\<in>set evs. \<forall>name k. snd x \<noteq> TrainComponentCalled name k"
    unfolding trace_ext_def by blast
  then show ?thesis by (simp add: train_calls_append train_calls_none)
qed

lemma train_calls_new_events:
  assumes "trace_ext P s s'" and "train_calls (trace s') = train_calls (trace s) @ calls"
  shows "train_calls (new_events s s') = calls"
  using assms trace_ext_new_events(1)[OF assms(1)]
  by (metis same_append_eq train_calls_append)

subsection \<open>With a non-zero \<open>grad_acc_steps\<close> the training of a component returns\<close>

lemma train_step_returns:
  assumes "grad_acc_steps (training c name) \<noteq> 0"
  shows "\<exists>s'. train_step E c name i s = Returns () s'"
  using assms by (simp add: train_step_def Let_def)

lemma train_steps_returns:
  assumes "grad_acc_steps (training c name) \<noteq> 0"
  shows "\<exists>s'. train_steps E c name is s = Returns () s'"
proof (induction "is" arbitrary: s)
  case Nil
  show ?case by simp
next
  case (Cons i "is")
  from train_step_returns[OF assms] obtain t where "train_step E c name i s = Returns () t"
    by blast
  with Cons.IH[of t] show ?case by simp
qed

lemma train_component_returns:
  assumes "grad_acc_steps (training c name) \<noteq> 0"
  shows "\<exists>s'. train_component E c name k s = Returns () s'"
  unfolding train_component_def Let_def by (rule train_steps_returns[OF assms])

lemma train_calls_train_steps:
  "train_calls (trace (final_state (train_steps E c name is s))) = train_calls (trace s)"
  by (rule train_calls_trace_ext, rule trace_ext_train_steps) auto

lemma train_calls_train_component:
  "train_calls (trace (final_state (train_component E c name k s))) = train_calls (trace s) @ [(name, k)]"
  by (simp add: train_component_def Let_def train_calls_train_steps train_calls_append)

lemma train_components_calls:
  assumes "\<forall>name\<in>set names. grad_acc_steps (training c name) \<noteq> 0"
  shows "\<exists>s'. train_components E c names s = Returns () s' \<and>
           train_calls (trace s') = train_calls (trace s) @
             map (\<lambda>name. (name, if epoch s = 1 then steps_first_epoch (training c name)
                                 else steps_per_epoch (training c name)))
               (filter (\<lambda>name. epoch s > start_after_epochs (training c name)) names)"
  using assms
proof (induction names arbitrary: s)
  case Nil
  show ?case by simp
next
  case (Cons name names)
  let ?k = "if epoch s = 1 then steps_first_epoch (training c name) else steps_per_epoch (training c name)"
  show ?case
  proof (cases "epoch s > start_after_epochs (training c name)")
    case False
    with Cons.IH[of s] Cons.prems show ?thesis by (simp add: Let_def)
  next
    case True
    from Cons.prems have "grad_acc_steps (training c name) \<noteq> 0" by simp
    from train_component_returns[OF this] obtain t where
      t: "train_component E c name ?k s = Returns () t" by blast
    with train_calls_train_component[of E c name ?k s] epoch_train_component[of E c name ?k s]
    have ct: "train_calls (trace t) = train_calls (trace s) @ [(name, ?k)]" and et: "epoch t = epoch s"
      by simp_all
    from Cons.IH[of t] Cons.prems obtain s' where
      "train_components E c names t = Returns () s'"
      "train_calls (trace s') = train_calls (trace t) @
             map (\<lambda>name. (name, if epoch t = 1 then steps_first_epoch (training c name)
                                 else steps_per_epoch (training c name)))
               (filter (\<lambda>name. epoch t > start_after_epochs (training c name)) names)"
      by auto
    with True t ct et show ?thesis by (simp add: Let_def)
  qed
qed

section \<open>Which components \<open>train_agent\<close> trains\<close>

text \<open>
  Claim C6, as amended. With non-zero \<open>grad_acc_steps\<close>, \<open>train_agent\<close> returns, and it
  calls \<open>train_component\<close> for exactly the components of its list (\<open>actor_critic\<close> alone
  in a model-free run, all three otherwise) whose \<open>start_after_epochs\<close> the epoch
  exceeds, in order, with \<open>steps_first_epoch\<close> at epoch 1 and \<open>steps_per_epoch\<close> otherwise.
\<close>

theorem train_agent_calls:
  assumes "\<forall>name. grad_acc_steps (training c name) \<noteq> 0"
  shows "\<exists>s'. train_agent E c s = Returns () s' \<and>
           train_calls (new_events s s') =
             map (\<lambda>name. (name, if epoch s = 1 then steps_first_epoch (training c name)
                                 else steps_per_epoch (training c name)))
               (filter (\<lambda>name. epoch s > start_after_epochs (training c name))
                  (if is_model_free c then [ActorCritic] else model_names))"
proof -
  let ?names = "if is_model_free c then [ActorCritic] else model_names"
  let ?t = "emit E AgentZeroGrad (emit E AgentTrain s)"
  from assms have "\<forall>name\<in>set ?names. grad_acc_steps (training c name) \<noteq> 0" by simp
  from train_components_calls[OF this, of E ?t] obtain s' where
    r: "train_components E c ?names ?t = Returns () s'" and
    calls: "train_calls (trace s') = train_calls (trace ?t) @
             map (\<lambda>name. (name, if epoch ?t = 1 then steps_first_epoch (training c name)
                                 else steps_per_epoch (training c name)))
               (filter (\<lambda>name. epoch ?t > start_after_epochs (training c name)) ?names)"
    by blast
  have ta: "train_agent E c s = Returns () s'"
    using r by (simp add: train_agent_def Let_def)
  have "trace_ext (\<lambda>ev. True) s (final_state (train_agent E c s))"
    by (rule trace_ext_train_agent) simp_all
  with ta have ext: "trace_ext (\<lambda>ev. True) s s'" by simp
  have "train_calls (trace ?t) = train_calls (trace s)"
    by (simp add: train_calls_append)
  with calls have "train_calls (trace s') = train_calls (trace s) @
             map (\<lambda>name. (name, if epoch s = 1 then steps_first_epoch (training c name)
                                 else steps_per_epoch (training c name)))
               (filter (\<lambda>name. epoch s > start_after_epochs (training c name)) ?names)"
    by simp
  from train_calls_new_events[OF ext this] ta show ?thesis by blast
qed

theorem train_agent_calls_witness:
  "\<exists>s'. train_agent example_collab (example_cfg\<lparr>training_should := True\<rparr>) (initial_state\<lparr>epoch := 1\<rparr>)
          = Returns () s' \<and>
        train_calls (new_events (initial_state\<lparr>epoch := 1\<rparr>) s') = [(Denoiser, 16), (RewEndModel, 16)]"
  using train_agent_calls[of "example_cfg\<lparr>training_should := True\<rparr>" example_collab
          "initial_state\<lparr>epoch := 1\<rparr>"]
  by (simp add: example_cfg_def example_training_def initial_state_def model_names_def)

text \<open>
  The claim as stated fails in a model-free run: at epoch 1 the denoiser's
  \<open>start_after_epochs\<close> of 0 is passed, and \<open>train_agent\<close> calls \<open>train_component\<close> for
  no model at all (the threshold of \<open>actor_critic\<close>, 5, is not passed).
\<close>

theorem train_agent_skips_models_when_model_free:
  "epoch (initial_state\<lparr>epoch := 1\<rparr>)
     > start_after_epochs (training (example_cfg\<lparr>is_model_free := True\<rparr>) Denoiser)
   \<and> train_calls (new_events (initial_state\<lparr>epoch := 1\<rparr>)
         (final_state (train_agent example_collab (example_cfg\<lparr>is_model_free := True\<rparr>)
            (initial_state\<lparr>epoch := 1\<rparr>)))) = []"
  by (simp add: train_agent_def Let_def example_cfg_def example_training_def initial_state_def
      new_events_def emit_def)

section \<open>Model-free runs train the actor-critic only\<close>

text \<open>
  Claim C10. When \<open>training.model_free\<close> is set, \<open>train_agent\<close>, at any epoch, calls
  \<open>train_component\<close> for \<open>actor_critic\<close> only, and nothing it does touches the denoiser or
  the reward/end model.
\<close>

theorem model_free_trains_only_actor_critic:
  assumes "is_model_free c"
  shows "list_all (\<lambda>(name, k). name = ActorCritic)
           (train_calls (new_events s (final_state (train_agent E c s))))
       \<and> list_all (\<lambda>x. event_component (snd x) \<noteq> Some Denoiser
                       \<and> event_component (snd x) \<noteq> Some RewEndModel)
           (new_events s (final_state (train_agent E c s)))"
proof -
  let ?P = "\<lambda>ev. event_component ev \<noteq> Some Denoiser \<and> event_component ev \<noteq> Some RewEndModel"
  let ?evs = "new_events s (final_state (train_agent E c s))"
  have "trace_ext ?P s (final_state (train_agent E c s))"
    by (rule trace_ext_train_agent) (use assms in auto)
  then have all: "\<forall>x\<in>set ?evs. ?P (snd x)"
    by (rule trace_ext_new_events(2))
  have "name = ActorCritic" if "(name, k) \<in> set (train_calls ?evs)" for name k
  proof -
    from train_calls_mem[OF that] obtain e where "(e, TrainComponentCalled name k) \<in> set ?evs"
      by blast
    with all have "?P (TrainComponentCalled name k)" by force
    then show ?thesis by (cases name) simp_all
  qed
  with all show ?thesis by (auto simp: list_all_iff)
qed

theorem model_free_trains_only_actor_critic_witness:
  "list_all (\<lambda>(name, k). name = ActorCritic)
     (train_calls (new_events (initial_state\<lparr>epoch := 6\<rparr>)
        (final_state (train_agent example_collab (example_cfg\<lparr>is_model_free := True\<rparr>)
           (initial_state\<lparr>epoch := 6\<rparr>)))))
   \<and> list_all (\<lambda>x. event_component (snd x) \<noteq> Some Denoiser
                   \<and> event_component (snd x) \<noteq> Some RewEndModel)
       (new_events (initial_state\<lparr>epoch := 6\<rparr>)
          (final_state (train_agent example_collab (example_cfg\<lparr>is_model_free := True\<rparr>)
             (initial_state\<lparr>epoch := 6\<rparr>))))"
  using model_free_trains_only_actor_critic
          [of "example_cfg\<lparr>is_model_free := True\<rparr>" "initial_state\<lparr>epoch := 6\<rparr>" example_collab]
  by (simp add: example_cfg_def)

section \<open>The number of iterations of \<open>train_component\<close>\<close>

lemma occurrences_simps [simp]:
  "occurrences ev [] = 0"
  "occurrences ev ((e, ev') # evs) = (if ev' = ev then 1 else 0) + occurrences ev evs"
  "occurrences ev (evs @ evs') = occurrences ev evs + occurrences ev evs'"
  by (simp_all add: occurrences_def)

lemma occurrences_train_step:
  assumes "grad_acc_steps (training c name) \<noteq> 0"
  shows "occurrences (Backward name) (trace (final_state (train_step E c name i s)))
           = occurrences (Backward name) (trace s) + 1"
    and "occurrences (OptStep name) (trace (final_state (train_step E c name i s)))
           = occurrences (OptStep name) (trace s)
             + (if (int i + 1) mod grad_acc_steps (training c name) = 0 then 1 else 0)"
    and "occurrences (OptZeroGrad name) (trace (final_state (train_step E c name i s)))
           = occurrences (OptZeroGrad name) (trace s)
             + (if (int i + 1) mod grad_acc_steps (training c name) = 0 then 1 else 0)"
    and "has_lr_sched c name \<Longrightarrow>
         occurrences (LrSchedStep name) (trace (final_state (train_step E c name i s)))
           = occurrences (LrSchedStep name) (trace s)
             + (if (int i + 1) mod grad_acc_steps (training c name) = 0 then 1 else 0)"
  using assms by (simp_all add: train_step_def optimizer_update_def Let_def)

lemma occurrences_train_steps_sum:
  assumes "grad_acc_steps (training c name) \<noteq> 0"
    and "\<And>i s. occurrences ev (trace (final_state (train_step E c name i s)))
                 = occurrences ev (trace s) + d i"
  shows "occurrences ev (trace (final_state (train_steps E c name is s)))
           = occurrences ev (trace s) + sum_list (map d is)"
proof (induction "is" arbitrary: s)
  case Nil
  show ?case by simp
next
  case (Cons i "is" s)
  from train_step_returns[OF assms(1)] obtain t where t: "train_step E c name i s = Returns () t"
    by blast
  then have "final_state (train_step E c name i s) = t" by simp
  with assms(2)[of i s] have "occurrences ev (trace t) = occurrences ev (trace s) + d i" by simp
  with Cons.IH[of t] t show ?case by simp
qed

lemma sum_list_indicator:
  "sum_list (map (\<lambda>i. if P i then 1 else 0) xs) = length (filter P xs)"
  by (induction xs) simp_all

lemma occurrences_train_steps:
  assumes "grad_acc_steps (training c name) \<noteq> 0"
  shows "occurrences (Backward name) (trace (final_state (train_steps E c name is s)))
           = occurrences (Backward name) (trace s) + length is"
    and "occurrences (OptStep name) (trace (final_state (train_steps E c name is s)))
           = occurrences (OptStep name) (trace s)
             + length (filter (\<lambda>i. (int i + 1) mod grad_acc_steps (training c name) = 0) is)"
    and "occurrences (OptZeroGrad name) (trace (final_state (train_steps E c name is s)))
           = occurrences (OptZeroGrad name) (trace s)
             + length (filter (\<lambda>i. (int i + 1) mod grad_acc_steps (training c name) = 0) is)"
    and "has_lr_sched c name \<Longrightarrow>
         occurrences (LrSchedStep name) (trace (final_state (train_steps E c name is s)))
           = occurrences (LrSchedStep name) (trace s)
             + length (filter (\<lambda>i. (int i + 1) mod grad_acc_steps (training c name) = 0) is)"
proof -
  let ?due = "\<lambda>i. if (int i + 1) mod grad_acc_steps (training c name) = 0 then 1 else (0::nat)"
  have "occurrences (Backward name) (trace (final_state (train_steps E c name is s)))
           = occurrences (Backward name) (trace s) + sum_list (map (\<lambda>i. 1) is)"
    by (rule occurrences_train_steps_sum[OF assms]) (rule occurrences_train_step(1)[OF assms])
  then show "occurrences (Backward name) (trace (final_state (train_steps E c name is s)))
           = occurrences (Backward name) (trace s) + length is"
    by (simp add: sum_list_triv)
  have "occurrences (OptStep name) (trace (final_state (train_steps E c name is s)))
           = occurrences (OptStep name) (trace s) + sum_list (map ?due is)"
    by (rule occurrences_train_steps_sum[OF assms]) (rule occurrences_train_step(2)[OF assms])
  then show "occurrences (OptStep name) (trace (final_state (train_steps E c name is s)))
           = occurrences (OptStep name) (trace s)
             + length (filter (\<lambda>i. (int i + 1) mod grad_acc_steps (training c name) = 0) is)"
    by (simp only: sum_list_indicator)
  have "occurrences (OptZeroGrad name) (trace (final_state (train_steps E c name is s)))
           = occurrences (OptZeroGrad name) (trace s) + sum_list (map ?due is)"
    by (rule occurrences_train_steps_sum[OF assms]) (rule occurrences_train_step(3)[OF assms])
  then show "occurrences (OptZeroGrad name) (trace (final_state (train_steps E c name is s)))
           = occurrences (OptZeroGrad name) (trace s)
             + length (filter (\<lambda>i. (int i + 1) mod grad_acc_steps (training c name) = 0) is)"
    by (simp only: sum_list_indicator)
  show "occurrences (LrSchedStep name) (trace (final_state (train_steps E c name is s)))
           = occurrences (LrSchedStep name) (trace s)
             + length (filter (\<lambda>i. (int i + 1) mod grad_acc_steps (training c name) = 0) is)"
    if lr: "has_lr_sched c name"
  proof -
    have "occurrences (LrSchedStep name) (trace (final_state (train_steps E c name is s)))
             = occurrences (LrSchedStep name) (trace s) + sum_list (map ?due is)"
      by (rule occurrences_train_steps_sum[OF assms]) (rule occurrences_train_step(4)[OF assms lr])
    then show ?thesis by (simp only: sum_list_indicator)
  qed
qed

lemma count_due:
  assumes "0 < g"
  shows "length (filter (\<lambda>i. (int i + 1) mod g = 0) [0..<n]) = n div nat g"
proof (induction n)
  case 0
  show ?case by simp
next
  case (Suc n)
  have "((int n + 1) mod g = 0) = (Suc n mod nat g = 0)"
    using assms
    by (metis Suc_eq_plus1 dvd_eq_mod_eq_0 int_dvd_int_iff int_nat_eq less_le_not_le of_nat_Suc of_nat_1 of_nat_add)
  with Suc show ?case by (simp add: div_Suc)
qed


text \<open>
  Claim C2 fails on the code: with \<open>grad_acc_steps = 4\<close> and \<open>steps = 8\<close> the loop of
  \<open>train_component\<close> runs 1000 times, not 32, with 250 optimiser steps, 250 advances of the
  schedule and 251 calls of \<open>opt.zero_grad()\<close> (one before the loop).
\<close>

theorem train_component_ignores_steps:
  "grad_acc_steps (training example_cfg Denoiser) = 4
   \<and> occurrences (Backward Denoiser)
       (trace (final_state (train_component example_collab example_cfg Denoiser 8 initial_state))) = 1000
   \<and> occurrences (OptStep Denoiser)
       (trace (final_state (train_component example_collab example_cfg Denoiser 8 initial_state))) = 250
   \<and> occurrences (OptZeroGrad Denoiser)
       (trace (final_state (train_component example_collab example_cfg Denoiser 8 initial_state))) = 251
   \<and> occurrences (LrSchedStep Denoiser)
       (trace (final_state (train_component example_collab example_cfg Denoiser 8 initial_state))) = 250"
proof -
  have g: "grad_acc_steps (training example_cfg Denoiser) = 4"
    by (simp add: example_cfg_def example_training_def)
  then have nz: "grad_acc_steps (training example_cfg Denoiser) \<noteq> 0" by simp
  have lr: "has_lr_sched example_cfg Denoiser" by (simp add: example_cfg_def)
  have due: "length (filter (\<lambda>i. (int i + 1) mod 4 = 0) [0..<1000]) = 250"
    by (simp add: count_due)
  show ?thesis
    unfolding train_component_def Let_def py_range_def
    using g due
    by (simp add: occurrences_train_steps(1,2,3)[OF nz] occurrences_train_steps(4)[OF nz lr]
        initial_state_def)
qed

section \<open>The loop of the initial collection\<close>

lemma collect_loop_unfold:
  "collect_loop E c steps s =
     (if collection_complete E c (emit E (TrainCollectorSend steps) s)
      then Some (ds_num_steps E (world (emit E (TrainCollectorSend steps) s)),
                 emit E (TrainCollectorSend steps) s)
      else collect_loop E c (collect_steps_per_epoch c) (emit E (TrainCollectorSend steps) s))"
  by (subst collect_loop.simps) (simp add: Let_def collection_complete_def split: option.split)

lemma collect_loop_stops_at:
  assumes "collection_complete E c (increments E c steps s n)"
    and "\<forall>i<n. \<not> collection_complete E c (increments E c steps s i)"
  shows "collect_loop E c steps s =
           Some (ds_num_steps E (world (increments E c steps s n)), increments E c steps s n)"
  using assms
proof (induction n arbitrary: steps s)
  case 0
  then show ?case by (subst collect_loop_unfold) simp
next
  case (Suc n)
  let ?t = "emit E (TrainCollectorSend steps) s"
  from Suc.prems(2) have "\<not> collection_complete E c (increments E c steps s 0)" by blast
  then have first: "\<not> collection_complete E c ?t" by simp
  have later: "\<forall>i<n. \<not> collection_complete E c (increments E c (collect_steps_per_epoch c) ?t i)"
  proof (intro allI impI)
    fix i assume "i < n"
    then have "Suc i < Suc n" by simp
    with Suc.prems(2) have "\<not> collection_complete E c (increments E c steps s (Suc i))" by blast
    then show "\<not> collection_complete E c (increments E c (collect_steps_per_epoch c) ?t i)" by simp
  qed
  from Suc.prems(1) have "collection_complete E c (increments E c (collect_steps_per_epoch c) ?t n)"
    by simp
  from Suc.IH[OF this later] first show ?case
    by (subst collect_loop_unfold) simp
qed

lemma collect_loop_result_pair:
  assumes "collect_loop E c steps s = Some y"
  shows "\<exists>n. snd y = increments E c steps s n \<and> fst y = ds_num_steps E (world (snd y))
             \<and> collection_complete E c (increments E c steps s n)
             \<and> (\<forall>i<n. \<not> collection_complete E c (increments E c steps s i))"
proof (rule collect_loop.raw_induct[OF _ assms], goal_cases)
  case (1 loop E c steps s y)
  let ?t = "emit E (TrainCollectorSend steps) s"
  show ?case
  proof (cases "collection_complete E c ?t")
    case True
    with 1(2) have "y = (ds_num_steps E (world ?t), ?t)"
      by (auto simp: Let_def collection_complete_def split: if_splits option.splits)
    with True have "snd y = increments E c steps s 0 \<and> fst y = ds_num_steps E (world (snd y))
             \<and> collection_complete E c (increments E c steps s 0)
             \<and> (\<forall>i<0. \<not> collection_complete E c (increments E c steps s i))" by simp
    then show ?thesis by blast
  next
    case False
    with 1(2) have "loop E c (collect_steps_per_epoch c) ?t = Some y"
      by (auto simp: Let_def collection_complete_def split: if_splits option.splits)
    from 1(1)[OF this] obtain n where n: "snd y = increments E c (collect_steps_per_epoch c) ?t n"
      "fst y = ds_num_steps E (world (snd y))"
      "collection_complete E c (increments E c (collect_steps_per_epoch c) ?t n)"
      "\<forall>i<n. \<not> collection_complete E c (increments E c (collect_steps_per_epoch c) ?t i)"
      by blast
    have "\<forall>i<Suc n. \<not> collection_complete E c (increments E c steps s i)"
    proof (intro allI impI)
      fix i assume "i < Suc n"
      then show "\<not> collection_complete E c (increments E c steps s i)"
        using False n(4) by (cases i) simp_all
    qed
    with n have "snd y = increments E c steps s (Suc n) \<and> fst y = ds_num_steps E (world (snd y))
             \<and> collection_complete E c (increments E c steps s (Suc n))
             \<and> (\<forall>i<Suc n. \<not> collection_complete E c (increments E c steps s i))" by simp
    then show ?thesis by blast
  qed
qed

lemma collect_loop_result:
  assumes "collect_loop E c steps s = Some (m, s')"
  shows "\<exists>n. s' = increments E c steps s n \<and> m = ds_num_steps E (world s')
             \<and> collection_complete E c (increments E c steps s n)
             \<and> (\<forall>i<n. \<not> collection_complete E c (increments E c steps s i))"
  using collect_loop_result_pair[OF assms] by simp

lemma trace_increments:
  "trace (increments E c steps s n) =
     trace s @ map (Pair (epoch s))
       (TrainCollectorSend steps # replicate n (TrainCollectorSend (collect_steps_per_epoch c)))"
  by (induction n arbitrary: steps s) (simp_all add: replicate_app_Cons_same)


text \<open>
  Claim C4. Once its \<open>assert\<close> on \<open>min_steps\<close> has passed, \<open>collect_initial_dataset\<close> collects
  in increments, the first of \<open>min_steps\<close> steps and every later one of \<open>steps_per_epoch\<close>
  steps, and it leaves its loop exactly after the first increment that brings the sum of
  all reward counts but the largest to \<open>threshold_rew\<close> or more, or the number of steps to
  the configured maximum or more; when no increment does, it never returns.
\<close>

theorem collect_initial_dataset_stops_exactly:
  assumes "collect_steps_per_epoch c \<noteq> 0"
    and "first_epoch_min c mod collect_steps_per_epoch c = 0"
  shows "(map_option final_state (collect_initial_dataset E c s) = Some s' \<longleftrightarrow>
            (\<exists>n. s' = increments E c (first_epoch_min c) s n
                 \<and> collection_complete E c s'
                 \<and> (\<forall>i<n. \<not> collection_complete E c (increments E c (first_epoch_min c) s i))))
       \<and> new_events s (increments E c (first_epoch_min c) s k) =
            map (Pair (epoch s))
              (TrainCollectorSend (first_epoch_min c)
                 # replicate k (TrainCollectorSend (collect_steps_per_epoch c)))"
proof (intro conjI iffI)
  assume a: "map_option final_state (collect_initial_dataset E c s) = Some s'"
  then obtain r where r: "collect_initial_dataset E c s = Some r" "final_state r = s'"
    by auto
  with assms obtain m t where l: "collect_loop E c (first_epoch_min c) s = Some (m, t)"
    by (auto simp: collect_initial_dataset_def Let_def split: option.splits)
  with r assms have "s' = t"
    by (auto simp: collect_initial_dataset_def Let_def split: if_splits)
  with collect_loop_result[OF l]
  show "\<exists>n. s' = increments E c (first_epoch_min c) s n
           \<and> collection_complete E c s'
           \<and> (\<forall>i<n. \<not> collection_complete E c (increments E c (first_epoch_min c) s i))"
    by auto
next
  assume "\<exists>n. s' = increments E c (first_epoch_min c) s n
           \<and> collection_complete E c s'
           \<and> (\<forall>i<n. \<not> collection_complete E c (increments E c (first_epoch_min c) s i))"
  then obtain n where n: "s' = increments E c (first_epoch_min c) s n"
    "collection_complete E c (increments E c (first_epoch_min c) s n)"
    "\<forall>i<n. \<not> collection_complete E c (increments E c (first_epoch_min c) s i)"
    by blast
  from collect_loop_stops_at[OF n(2,3)] n(1) assms
  show "map_option final_state (collect_initial_dataset E c s) = Some s'"
    by (simp add: collect_initial_dataset_def Let_def)
next
  show "new_events s (increments E c (first_epoch_min c) s k) =
        map (Pair (epoch s))
          (TrainCollectorSend (first_epoch_min c)
             # replicate k (TrainCollectorSend (collect_steps_per_epoch c)))"
    by (simp add: new_events_def trace_increments)
qed

theorem collect_initial_dataset_stops_exactly_witness:
  "total_minority_rew (ds_counts_rew example_collab
      (world (increments example_collab example_cfg 100 initial_state 0))) = 5
   \<and> total_minority_rew (ds_counts_rew example_collab
      (world (increments example_collab example_cfg 100 initial_state 1))) = 12
   \<and> threshold_rew example_cfg = 10
   \<and> map_option final_state (collect_initial_dataset example_collab example_cfg initial_state)
       = Some (increments example_collab example_cfg 100 initial_state 1)
   \<and> new_events initial_state (increments example_collab example_cfg 100 initial_state 1)
       = [(0, TrainCollectorSend 100), (0, TrainCollectorSend 20)]"
proof -
  have w: "world (increments example_collab example_cfg 100 initial_state 0) = [0, 100, 5]"
    "world (increments example_collab example_cfg 100 initial_state 1) = [0, 120, 12]"
    by (simp_all add: emit_def example_collab_def initial_state_def)
  have m: "total_minority_rew [0, 100, 5] = 5" "total_minority_rew [0, 120, 12] = 12"
    by (simp_all add: total_minority_rew_def)
  have c: "first_epoch_min example_cfg = 100" "collect_steps_per_epoch example_cfg = 20"
    "threshold_rew example_cfg = 10" "first_epoch_max example_cfg = None"
    by (simp_all add: example_cfg_def)
  have d: "ds_counts_rew example_collab = (\<lambda>counts. counts)" "ds_num_steps example_collab = sum_list"
    by (simp_all add: example_collab_def)
  have e: "epoch initial_state = 0" by (simp add: initial_state_def)
  have stop: "collection_complete example_collab example_cfg
      (increments example_collab example_cfg 100 initial_state 1)"
    unfolding collection_complete_def w d c m by simp
  have go: "\<not> collection_complete example_collab example_cfg
      (increments example_collab example_cfg 100 initial_state 0)"
    unfolding collection_complete_def w d c m by simp
  have "\<exists>n. increments example_collab example_cfg 100 initial_state 1
          = increments example_collab example_cfg (first_epoch_min example_cfg) initial_state n
       \<and> collection_complete example_collab example_cfg
             (increments example_collab example_cfg 100 initial_state 1)
       \<and> (\<forall>i<n. \<not> collection_complete example_collab example_cfg
             (increments example_collab example_cfg (first_epoch_min example_cfg) initial_state i))"
  proof (rule exI[of _ 1], intro conjI allI impI)
    fix i :: nat assume "i < 1"
    then have "i = 0" by simp
    with go show "\<not> collection_complete example_collab example_cfg
             (increments example_collab example_cfg (first_epoch_min example_cfg) initial_state i)"
      by (simp add: c)
  qed (simp_all only: c stop)
  with collect_initial_dataset_stops_exactly[of example_cfg example_collab initial_state
         "increments example_collab example_cfg 100 initial_state 1" 1]
  show ?thesis unfolding w d m c e by simp
qed

section \<open>The number of collecting epochs\<close>

text \<open>
  Claim C5. When the loop of \<open>collect_initial_dataset\<close> has ended with the train dataset at
  \<open>num_steps\<close> steps, the call returns \<open>(num_steps_total - num_steps) // steps_per_epoch\<close> when
  \<open>steps_per_epoch\<close> divides the remaining steps, and raises \<open>AssertionError\<close> when it does not.
\<close>

theorem num_epochs_collect_from_remaining_steps:
  assumes "collect_steps_per_epoch c \<noteq> 0"
    and "first_epoch_min c mod collect_steps_per_epoch c = 0"
    and "collect_loop E c (first_epoch_min c) s = Some (num_steps, s')"
  shows "num_steps = ds_num_steps E (world s')
       \<and> collect_initial_dataset E c s =
           Some (if (num_steps_total c - num_steps) mod collect_steps_per_epoch c = 0
                 then Returns ((num_steps_total c - num_steps) div collect_steps_per_epoch c) s'
                 else Raises AssertionError s')"
  using assms collect_loop_result[OF assms(3)]
  by (auto simp: collect_initial_dataset_def Let_def)

theorem num_epochs_collect_from_remaining_steps_witness:
  "collect_initial_dataset example_collab example_cfg initial_state =
     Some (Returns 50 (increments example_collab example_cfg 100 initial_state 1))
   \<and> collect_initial_dataset example_collab (example_cfg\<lparr>num_steps_total := 1140\<rparr>) initial_state =
     Some (Raises AssertionError
       (increments example_collab (example_cfg\<lparr>num_steps_total := 1140\<rparr>) 100 initial_state 1))"
proof -
  have w: "world (increments example_collab c 100 initial_state 0) = [0, 100, 5]"
    "world (increments example_collab c 100 initial_state 1) = [0, 120, 12]" for c
    by (simp_all add: emit_def example_collab_def initial_state_def)
  have m: "total_minority_rew [0, 100, 5] = 5" "total_minority_rew [0, 120, 12] = 12"
    by (simp_all add: total_minority_rew_def)
  have d: "ds_counts_rew example_collab = (\<lambda>counts. counts)" "ds_num_steps example_collab = sum_list"
    by (simp_all add: example_collab_def)
  have loop: "collect_loop example_collab c 100 initial_state
      = Some (132, increments example_collab c 100 initial_state 1)"
    if "threshold_rew c = 10" "first_epoch_max c = None" for c
  proof -
    have "collection_complete example_collab c (increments example_collab c 100 initial_state 1)"
      unfolding collection_complete_def w d m that by simp
    moreover have "\<forall>i<1. \<not> collection_complete example_collab c
        (increments example_collab c 100 initial_state i)"
      unfolding collection_complete_def using w(1)[of c] d m that by simp
    ultimately show ?thesis
      using collect_loop_stops_at[of example_collab c 100 initial_state 1] w(2)[of c] d by simp
  qed
  have 1: "collect_initial_dataset example_collab example_cfg initial_state =
     Some (Returns 50 (increments example_collab example_cfg 100 initial_state 1))"
    using num_epochs_collect_from_remaining_steps[of example_cfg example_collab initial_state 132
        "increments example_collab example_cfg 100 initial_state 1"]
      loop[of example_cfg]
    by (simp add: example_cfg_def)
  have 2: "collect_initial_dataset example_collab (example_cfg\<lparr>num_steps_total := 1140\<rparr>) initial_state =
     Some (Raises AssertionError
       (increments example_collab (example_cfg\<lparr>num_steps_total := 1140\<rparr>) 100 initial_state 1))"
    using num_epochs_collect_from_remaining_steps[of "example_cfg\<lparr>num_steps_total := 1140\<rparr>"
        example_collab initial_state 132
        "increments example_collab (example_cfg\<lparr>num_steps_total := 1140\<rparr>) 100 initial_state 1"]
      loop[of "example_cfg\<lparr>num_steps_total := 1140\<rparr>"]
    by (simp add: example_cfg_def)
  from 1 2 show ?thesis by simp
qed

section \<open>The number of epochs of a run\<close>

text \<open>
  Claim C1 fails on the code. In the example the initial collection gives
  \<open>num_epochs_collect = 50\<close> and \<open>training.num_final_epochs\<close> is 5, a budget of 55 epochs;
  \<open>run\<close> returns after 2 epochs, with 2 checkpoints saved.
\<close>

theorem run_stops_after_two_epochs:
  "num_final_epochs example_cfg = 5
   \<and> (case run example_collab example_cfg initial_state of
        Some (Returns _ s') \<Rightarrow>
          num_epochs_collect s' = Some 50 \<and> epoch s' = 2
          \<and> occurrences SaveCheckpoint (trace s') = 2
      | _ \<Rightarrow> False)"
  by code_simp

section \<open>What the epoch loop adds to the trace\<close>

lemma loop_event_component: "event_component ev = Some name \<Longrightarrow> loop_event c ev"
  by (cases ev) simp_all

lemma trace_ext_train_collection:
  "trace_ext (loop_event c) s (final_state (train_collection E c s))"
  by (auto simp: train_collection_def should_collect_train_def Let_def
      split: sum.split option.splits if_splits intro!: trace_ext_emit)

lemma trace_ext_training_phase:
  "trace_ext (loop_event c) s (final_state (training_phase E c s))"
proof (cases "training_should c")
  case False
  then show ?thesis by (simp add: training_phase_def)
next
  case True
  have "trace_ext (loop_event c) s (final_state (train_agent E c s))"
    by (rule trace_ext_train_agent) (simp_all add: loop_event_component)
  with True show ?thesis by (simp add: training_phase_def)
qed

lemma trace_ext_test_components:
  "rank c = 0 \<Longrightarrow> trace_ext (loop_event c) s (test_components E c names s)"
proof (induction names arbitrary: s)
  case Nil
  show ?case by simp
next
  case (Cons name names)
  have "trace_ext (loop_event c) s (test_component E name s)"
    unfolding test_component_def using Cons.prems by (auto intro!: trace_ext_emit)
  with Cons.IH[OF Cons.prems] show ?case by (auto intro: trace_ext_trans)
qed

lemma trace_ext_test_agent:
  assumes "rank c = 0"
  shows "trace_ext (loop_event c) s (test_agent E c s)"
proof -
  have "trace_ext (loop_event c) s (emit E AgentEval s)"
    using assms by (auto intro!: trace_ext_emit)
  then show ?thesis
    unfolding test_agent_def Let_def
    by (rule trace_ext_trans) (rule trace_ext_test_components[OF assms])
qed

lemma trace_collect_test:
  "trace (collect_test E c final s) =
     trace s @ map (Pair (epoch s))
       ([CollectTestCalled final, TestDatasetClear,
         TestCollectorSend (if final then num_final_episodes c else num_episodes c)]
        @ (if final
           then [FinalReturnStats (test_returns E (world
                   (emit E (TestCollectorSend (num_final_episodes c))
                     (emit E TestDatasetClear (emit E (CollectTestCalled True) s)))))]
           else []))"
  by (simp add: collect_test_def Let_def)

lemma trace_ext_collect_test:
  assumes "rank c = 0"
  shows "trace_ext (loop_event c) s (collect_test E c False s)"
  unfolding trace_ext_def using assms by (simp add: trace_collect_test)

lemma trace_ext_evaluation:
  "trace_ext (loop_event c) s (final_state (evaluation E c s))"
proof (cases "rank c = 0")
  case False
  then show ?thesis by (simp add: evaluation_def should_test_def)
next
  case True
  have "trace_ext (loop_event c) s (test_agent E c (collect_test E c False s))"
    by (rule trace_ext_trans[OF trace_ext_collect_test[OF True] trace_ext_test_agent[OF True]])
  then show ?thesis
    by (simp add: evaluation_def Let_def trace_ext_collect_test[OF True]
        trace_ext_test_agent[OF True] split: sum.split)
qed

lemma trace_ext_logging:
  "trace_ext (loop_event c) s (logging_and_checkpoint E c s)"
  by (auto simp: logging_and_checkpoint_def save_checkpoint_def Let_def intro!: trace_ext_emit)

lemma trace_ext_epoch_body:
  "trace_ext (loop_event c) s (final_state (epoch_body E c s))"
  unfolding epoch_body_def
  by (intro trace_ext_and_then trace_ext_train_collection trace_ext_training_phase
        trace_ext_evaluation) (simp add: trace_ext_logging)

lemma trace_ext_epoch_loop:
  "trace_ext (loop_event c) s (final_state (epoch_loop E c num_epochs s))"
proof (induction E c num_epochs s rule: epoch_loop.induct)
  case (1 E c num_epochs s)
  show ?case
  proof (cases "epoch s < num_epochs")
    case False
    then show ?thesis by simp
  next
    case True
    let ?s1 = "s\<lparr>epoch := epoch s + 1\<rparr>"
    have b: "trace_ext (loop_event c) s (final_state (epoch_body E c ?s1))"
      using trace_ext_epoch_body[of c ?s1 E] by (simp add: trace_ext_def)
    show ?thesis
    proof (cases "epoch_body E c ?s1")
      case (Raises e t)
      with b True show ?thesis by (subst epoch_loop.simps) simp
    next
      case (Returns u t)
      with b have "trace_ext (loop_event c) s t" by simp
      moreover from 1[OF True Returns]
      have "trace_ext (loop_event c) t (final_state (epoch_loop E c num_epochs t))" .
      ultimately have "trace_ext (loop_event c) s (final_state (epoch_loop E c num_epochs t))"
        by (rule trace_ext_trans)
      with Returns True show ?thesis by (subst epoch_loop.simps) simp
    qed
  qed
qed

section \<open>Ranks other than 0\<close>

lemma initial_collection_other_rank:
  assumes "rank c \<noteq> 0"
  shows "\<exists>s1. initial_collection E c s = Some (Returns () s1)
              \<and> trace_ext (\<lambda>ev. \<not> collects_or_evaluates ev) s s1"
proof -
  have "trace_ext (\<lambda>ev. \<not> collects_or_evaluates ev) s (broadcast_initial E c s)"
    unfolding broadcast_initial_def Let_def
    by (rule trace_ext_emit) (simp_all add: trace_ext_def)
  moreover have "trace_ext (\<lambda>ev. \<not> collects_or_evaluates ev) s (s\<lparr>num_epochs_collect := Some 0\<rparr>)"
    by (simp add: trace_ext_def)
  ultimately show ?thesis using assms by (simp add: initial_collection_def)
qed

text \<open>
  Claim C9. On a rank other than 0, \<open>run\<close> always ends, and from its start to its return
  or to the exception that ends it, it never calls the train or the test collector, and
  never runs \<open>collect_test\<close>, \<open>test_agent\<close> or \<open>test_component\<close>.
\<close>

theorem other_ranks_never_collect_or_evaluate:
  assumes "rank c \<noteq> 0"
  shows "\<exists>r. run E c s = Some r
            \<and> list_all (\<lambda>x. \<not> collects_or_evaluates (snd x)) (new_events s (final_state r))"
proof -
  let ?P = "\<lambda>ev. \<not> collects_or_evaluates ev"
  have mono: "?P ev" if "loop_event c ev" for ev
    using that assms by (cases ev) simp_all
  from initial_collection_other_rank[OF assms] obtain s1 where
    s1: "initial_collection E c s = Some (Returns () s1)" "trace_ext ?P s s1"
    by blast
  have "\<exists>r. run E c s = Some r \<and> trace_ext ?P s (final_state r)"
  proof (cases "num_epochs_collect s1")
    case None
    with s1 show ?thesis by (simp add: run_def)
  next
    case (Some k)
    have loop: "trace_ext ?P s1 (final_state (epoch_loop E c 2 s1))"
      by (rule trace_ext_mono[OF trace_ext_epoch_loop]) (rule mono)
    have "trace_ext ?P s1 (final_state (and_then (epoch_loop E c 2 s1)
            (\<lambda>s. Returns () (final_sync E c (last_collect E c s)))))"
      by (rule trace_ext_and_then[OF loop]) (simp add: last_collect_def final_sync_def assms)
    with s1(2) have "trace_ext ?P s (final_state (and_then (epoch_loop E c 2 s1)
            (\<lambda>s. Returns () (final_sync E c (last_collect E c s)))))"
      by (rule trace_ext_trans)
    with s1(1) Some show ?thesis by (simp add: run_def Let_def)
  qed
  then obtain r where "run E c s = Some r" "trace_ext ?P s (final_state r)" by blast
  with trace_ext_new_events(2)[OF this(2)] show ?thesis
    by (auto simp: list_all_iff)
qed

theorem other_ranks_never_collect_or_evaluate_witness:
  "\<exists>r. run example_collab (example_cfg\<lparr>rank := 1, training_should := True\<rparr>) initial_state = Some r
       \<and> list_all (\<lambda>x. \<not> collects_or_evaluates (snd x)) (new_events initial_state (final_state r))"
  using other_ranks_never_collect_or_evaluate
          [of "example_cfg\<lparr>rank := 1, training_should := True\<rparr>" example_collab initial_state]
  by (simp add: example_cfg_def)

section \<open>Evaluation in the epoch loop\<close>

lemma epochs_of_simps [simp]:
  "epochs_of ev [] = []"
  "epochs_of ev ((e, ev') # evs) = (if ev' = ev then [e] else []) @ epochs_of ev evs"
  "epochs_of ev (evs @ evs') = epochs_of ev evs @ epochs_of ev evs'"
  by (simp_all add: epochs_of_def)

lemma epochs_of_trace_ext:
  assumes "trace_ext P s s'" and "\<not> P ev"
  shows "epochs_of ev (trace s') = epochs_of ev (trace s)"
proof -
  from assms(1) obtain evs where evs: "trace s' = trace s @ evs" "\<forall>x\<in>set evs. P (snd x)"
    unfolding trace_ext_def by blast
  with assms(2) have "filter (\<lambda>x. snd x = ev) evs = []"
    by (auto simp: filter_empty_conv)
  with evs(1) show ?thesis by (simp add: epochs_of_def)
qed

lemma epochs_of_new_events:
  assumes "trace_ext P s s'" and "epochs_of ev (trace s') = epochs_of ev (trace s) @ es"
  shows "epochs_of ev (new_events s s') = es"
  using assms(2) trace_ext_new_events(1)[OF assms(1)]
  by (metis epochs_of_simps(3) same_append_eq)

lemma train_collection_returns:
  assumes "rank c = 0 \<and> \<not> is_model_free c \<and> \<not> is_static_dataset c \<longrightarrow> num_epochs_collect s \<noteq> None"
  shows "\<exists>t. train_collection E c s = Returns () t"
  using assms by (auto simp: train_collection_def should_collect_train_def Let_def)

lemma train_agent_returns:
  assumes "\<forall>name. grad_acc_steps (training c name) \<noteq> 0"
  shows "\<exists>t. train_agent E c s = Returns () t"
proof -
  from assms have "\<forall>name\<in>set (if is_model_free c then [ActorCritic] else model_names).
      grad_acc_steps (training c name) \<noteq> 0" by simp
  from train_components_calls[OF this] show ?thesis
    unfolding train_agent_def Let_def by blast
qed

lemma training_phase_returns:
  assumes "training_should c \<longrightarrow> (\<forall>name. grad_acc_steps (training c name) \<noteq> 0)"
  shows "\<exists>t. training_phase E c s = Returns () t"
  using assms train_agent_returns[of c E s] by (auto simp: training_phase_def)

lemma evaluation_returns:
  assumes "rank c = 0 \<and> evaluation_should c \<longrightarrow> evaluation_every c \<noteq> 0"
  shows "\<exists>t. evaluation E c s = Returns () t"
  using assms by (auto simp: evaluation_def should_test_def Let_def)

lemma epochs_of_test_components_other:
  assumes "\<forall>name. ev \<noteq> TestComponentCalled name"
  shows "epochs_of ev (trace (test_components E c names s)) = epochs_of ev (trace s)"
  using assms by (induction names arbitrary: s) (auto simp: test_component_def)

lemma epochs_of_evaluation:
  assumes "rank c = 0 \<and> evaluation_should c \<longrightarrow> evaluation_every c \<noteq> 0"
  shows "epochs_of (CollectTestCalled False) (trace (final_state (evaluation E c s))) =
           epochs_of (CollectTestCalled False) (trace s) @
             (if rank c = 0 \<and> evaluation_should c \<and> \<not> is_static_dataset c
                 \<and> epoch s mod evaluation_every c = 0 then [epoch s] else [])"
    and "epochs_of AgentEval (trace (final_state (evaluation E c s))) =
           epochs_of AgentEval (trace s) @
             (if rank c = 0 \<and> evaluation_should c \<and> \<not> is_model_free c
                 \<and> epoch s mod evaluation_every c = 0 then [epoch s] else [])"
    and "epochs_of SaveCheckpoint (trace (final_state (evaluation E c s))) =
           epochs_of SaveCheckpoint (trace s)"
  using assms
  by (auto simp: evaluation_def should_test_def Let_def test_agent_def trace_collect_test
      epochs_of_test_components_other)

text \<open>
  The conditions under which no part of the loop body raises: no \<open>%\<close> by zero in the
  evaluation test or in \<open>train_component\<close>, and a \<open>num_epochs_collect\<close> that is not \<open>None\<close>
  where line 302 compares with it.
\<close>

lemma epoch_body_parts:
  assumes "rank c = 0 \<and> evaluation_should c \<longrightarrow> evaluation_every c \<noteq> 0"
    and "training_should c \<longrightarrow> (\<forall>name. grad_acc_steps (training c name) \<noteq> 0)"
    and "rank c = 0 \<and> \<not> is_model_free c \<and> \<not> is_static_dataset c \<longrightarrow> num_epochs_collect s \<noteq> None"
  obtains t1 t2 t3 where "train_collection E c s = Returns () t1"
    and "training_phase E c t1 = Returns () t2"
    and "evaluation E c t2 = Returns () t3"
    and "epoch_body E c s = Returns () (logging_and_checkpoint E c t3)"
proof -
  from train_collection_returns[OF assms(3)] obtain t1 where
    t1: "train_collection E c s = Returns () t1" by blast
  from training_phase_returns[OF assms(2)] obtain t2 where
    t2: "training_phase E c t1 = Returns () t2" by blast
  from evaluation_returns[OF assms(1)] obtain t3 where
    t3: "evaluation E c t2 = Returns () t3" by blast
  from t1 t2 t3 have "epoch_body E c s = Returns () (logging_and_checkpoint E c t3)"
    by (simp add: epoch_body_def)
  with t1 t2 t3 show thesis by (rule that)
qed

lemma epochs_of_epoch_body:
  assumes "rank c = 0 \<and> evaluation_should c \<longrightarrow> evaluation_every c \<noteq> 0"
    and "training_should c \<longrightarrow> (\<forall>name. grad_acc_steps (training c name) \<noteq> 0)"
    and "rank c = 0 \<and> \<not> is_model_free c \<and> \<not> is_static_dataset c \<longrightarrow> num_epochs_collect s \<noteq> None"
  shows "epochs_of (CollectTestCalled False) (trace (final_state (epoch_body E c s))) =
           epochs_of (CollectTestCalled False) (trace s) @
             (if rank c = 0 \<and> evaluation_should c \<and> \<not> is_static_dataset c
                 \<and> epoch s mod evaluation_every c = 0 then [epoch s] else [])"
    and "epochs_of AgentEval (trace (final_state (epoch_body E c s))) =
           epochs_of AgentEval (trace s) @
             (if rank c = 0 \<and> evaluation_should c \<and> \<not> is_model_free c
                 \<and> epoch s mod evaluation_every c = 0 then [epoch s] else [])"
proof -
  from epoch_body_parts[OF assms, of E] obtain t1 t2 t3 where
    t1: "train_collection E c s = Returns () t1" and
    t2: "training_phase E c t1 = Returns () t2" and
    t3: "evaluation E c t2 = Returns () t3" and
    b: "epoch_body E c s = Returns () (logging_and_checkpoint E c t3)"
    by blast
  have other: "epochs_of ev (trace t2) = epochs_of ev (trace s)
             \<and> epochs_of ev (trace (logging_and_checkpoint E c t3)) = epochs_of ev (trace t3)"
    if ev: "ev = CollectTestCalled False \<or> ev = AgentEval" for ev
  proof -
    have "trace_ext (\<lambda>ev'. ev' \<noteq> ev) s (final_state (train_collection E c s))"
      using ev
      by (auto simp: train_collection_def should_collect_train_def Let_def
          split: sum.split option.splits if_splits intro!: trace_ext_emit)
    with t1 have 1: "epochs_of ev (trace t1) = epochs_of ev (trace s)"
      using epochs_of_trace_ext[of "\<lambda>ev'. ev' \<noteq> ev" s t1 ev] by simp
    have "trace_ext (\<lambda>ev'. ev' \<noteq> ev) t1 (final_state (train_agent E c t1))"
      by (rule trace_ext_train_agent) (use ev in auto)
    then have "trace_ext (\<lambda>ev'. ev' \<noteq> ev) t1 (final_state (training_phase E c t1))"
      by (simp add: training_phase_def)
    with t2 have 2: "epochs_of ev (trace t2) = epochs_of ev (trace t1)"
      using epochs_of_trace_ext[of "\<lambda>ev'. ev' \<noteq> ev" t1 t2 ev] by simp
    have 3: "epochs_of ev (trace (logging_and_checkpoint E c t3)) = epochs_of ev (trace t3)"
      using ev by (auto simp: logging_and_checkpoint_def save_checkpoint_def Let_def)
    from 1 2 3 show ?thesis by simp
  qed
  have e2: "epoch t2 = epoch s"
    using epoch_train_collection[of E c s] epoch_training_phase[of E c t1] t1 t2 by simp
  show "epochs_of (CollectTestCalled False) (trace (final_state (epoch_body E c s))) =
           epochs_of (CollectTestCalled False) (trace s) @
             (if rank c = 0 \<and> evaluation_should c \<and> \<not> is_static_dataset c
                 \<and> epoch s mod evaluation_every c = 0 then [epoch s] else [])"
    using epochs_of_evaluation(1)[OF assms(1), of E t2] other[of "CollectTestCalled False"] t3 b e2
    by simp
  show "epochs_of AgentEval (trace (final_state (epoch_body E c s))) =
           epochs_of AgentEval (trace s) @
             (if rank c = 0 \<and> evaluation_should c \<and> \<not> is_model_free c
                 \<and> epoch s mod evaluation_every c = 0 then [epoch s] else [])"
    using epochs_of_evaluation(2)[OF assms(1), of E t2] other[of AgentEval] t3 b e2
    by simp
qed

lemma epoch_loop_evaluation_epochs:
  assumes "rank c = 0 \<and> evaluation_should c \<longrightarrow> evaluation_every c \<noteq> 0"
    and "training_should c \<longrightarrow> (\<forall>name. grad_acc_steps (training c name) \<noteq> 0)"
    and "rank c = 0 \<and> \<not> is_model_free c \<and> \<not> is_static_dataset c \<longrightarrow> num_epochs_collect s \<noteq> None"
  shows "\<exists>s'. epoch_loop E c num_epochs s = Returns () s'
      \<and> epochs_of (CollectTestCalled False) (trace s') =
           epochs_of (CollectTestCalled False) (trace s) @
             (if rank c = 0 \<and> evaluation_should c \<and> \<not> is_static_dataset c
              then filter (\<lambda>e. e mod evaluation_every c = 0) [epoch s + 1..num_epochs] else [])
      \<and> epochs_of AgentEval (trace s') =
           epochs_of AgentEval (trace s) @
             (if rank c = 0 \<and> evaluation_should c \<and> \<not> is_model_free c
              then filter (\<lambda>e. e mod evaluation_every c = 0) [epoch s + 1..num_epochs] else [])"
  using assms
proof (induction E c num_epochs s rule: epoch_loop.induct)
  case (1 E c num_epochs s)
  show ?case
  proof (cases "epoch s < num_epochs")
    case False
    then show ?thesis by (subst epoch_loop.simps) simp
  next
    case True
    let ?s1 = "s\<lparr>epoch := epoch s + 1\<rparr>"
    have nec1: "rank c = 0 \<and> \<not> is_model_free c \<and> \<not> is_static_dataset c
        \<longrightarrow> num_epochs_collect ?s1 \<noteq> None"
      using "1.prems"(3) by simp
    note p = "1.prems"(1,2)
    from epoch_body_parts[OF p nec1, of E] obtain t where
      t: "epoch_body E c ?s1 = Returns () t" by blast
    from same_ctl_epoch_body[of ?s1 E c] t
    have ctl: "epoch t = epoch s + 1" "num_epochs_collect t = num_epochs_collect s"
      by (simp_all add: same_ctl_def)
    with "1.prems"(3) have nect: "rank c = 0 \<and> \<not> is_model_free c \<and> \<not> is_static_dataset c
        \<longrightarrow> num_epochs_collect t \<noteq> None" by simp
    from "1.IH"[OF True t p nect] obtain s' where
      s': "epoch_loop E c num_epochs t = Returns () s'"
      "epochs_of (CollectTestCalled False) (trace s') =
           epochs_of (CollectTestCalled False) (trace t) @
             (if rank c = 0 \<and> evaluation_should c \<and> \<not> is_static_dataset c
              then filter (\<lambda>e. e mod evaluation_every c = 0) [epoch t + 1..num_epochs] else [])"
      "epochs_of AgentEval (trace s') =
           epochs_of AgentEval (trace t) @
             (if rank c = 0 \<and> evaluation_should c \<and> \<not> is_model_free c
              then filter (\<lambda>e. e mod evaluation_every c = 0) [epoch t + 1..num_epochs] else [])"
      by blast
    have loop: "epoch_loop E c num_epochs s = Returns () s'"
      using True t s'(1) by (subst epoch_loop.simps) simp
    have up: "[epoch s + 1..num_epochs] = (epoch s + 1) # [epoch s + 1 + 1..num_epochs]"
      using True by (simp add: upto_rec1)
    have a: "epochs_of (CollectTestCalled False) (trace s') =
           epochs_of (CollectTestCalled False) (trace s) @
             (if rank c = 0 \<and> evaluation_should c \<and> \<not> is_static_dataset c
              then filter (\<lambda>e. e mod evaluation_every c = 0) [epoch s + 1..num_epochs] else [])"
      using epochs_of_epoch_body(1)[OF p nec1, of E] t s'(2) ctl(1)
      unfolding up by simp
    have b: "epochs_of AgentEval (trace s') =
           epochs_of AgentEval (trace s) @
             (if rank c = 0 \<and> evaluation_should c \<and> \<not> is_model_free c
              then filter (\<lambda>e. e mod evaluation_every c = 0) [epoch s + 1..num_epochs] else [])"
      using epochs_of_epoch_body(2)[OF p nec1, of E] t s'(3) ctl(1)
      unfolding up by simp
    from loop a b show ?thesis by blast
  qed
qed


section \<open>What the initial collection adds to the trace\<close>

lemma occurrences_epochs_of: "occurrences ev evs = length (epochs_of ev evs)"
  by (simp add: occurrences_def epochs_of_def)

lemma occurrences_trace_ext:
  assumes "trace_ext P s s'" and "\<not> P ev"
  shows "occurrences ev (trace s') = occurrences ev (trace s)"
  using epochs_of_trace_ext[OF assms] by (simp add: occurrences_epochs_of)

lemma occurrences_new_events:
  assumes "trace_ext P s s'"
  shows "occurrences ev (trace s') = occurrences ev (trace s) + occurrences ev (new_events s s')"
  using trace_ext_new_events(1)[OF assms] by (metis occurrences_simps(3))

lemma trace_ext_increments:
  "trace_ext (\<lambda>ev. \<exists>k. ev = TrainCollectorSend k) s (increments E c steps s n)"
  unfolding trace_ext_def by (auto simp: trace_increments)

lemma trace_ext_collect_initial_dataset:
  assumes "collect_initial_dataset E c s = Some r"
  shows "trace_ext (\<lambda>ev. \<exists>k. ev = TrainCollectorSend k) s (final_state r)"
proof (cases "collect_steps_per_epoch c = 0 \<or> first_epoch_min c mod collect_steps_per_epoch c \<noteq> 0")
  case True
  with assms show ?thesis
    by (auto simp: collect_initial_dataset_def Let_def split: if_splits)
next
  case False
  with assms obtain m s' where l: "collect_loop E c (first_epoch_min c) s = Some (m, s')"
    by (auto simp: collect_initial_dataset_def Let_def split: option.splits)
  from collect_loop_result[OF l] obtain n where "s' = increments E c (first_epoch_min c) s n"
    by blast
  then have "trace_ext (\<lambda>ev. \<exists>k. ev = TrainCollectorSend k) s s'"
    by (simp add: trace_ext_increments)
  with assms l False show ?thesis
    by (auto simp: collect_initial_dataset_def Let_def split: if_splits)
qed

lemma trace_ext_initial_collection:
  assumes "initial_collection E c s = Some r"
  shows "trace_ext (\<lambda>ev. ev = BroadcastDataset \<or> (\<exists>k. ev = TrainCollectorSend k)) s (final_state r)"
proof -
  let ?P = "\<lambda>ev. ev = BroadcastDataset \<or> (\<exists>k. ev = TrainCollectorSend k)"
  have bc: "trace_ext ?P s (broadcast_initial E c t)" if "trace_ext ?P s t" for t
    unfolding broadcast_initial_def Let_def
    by (rule trace_ext_emit) (use that in \<open>simp_all add: trace_ext_def\<close>)
  show ?thesis
  proof (cases "epoch s = 0 \<and> \<not> is_model_free c \<and> \<not> is_static_dataset c")
    case False
    with assms show ?thesis by (auto simp: initial_collection_def trace_ext_def split: if_splits)
  next
    case True
    show ?thesis
    proof (cases "rank c = 0")
      case False
      with True assms bc[of s] show ?thesis by (auto simp: initial_collection_def)
    next
      case True
      note r0 = this
      show ?thesis
      proof (cases "collect_initial_dataset E c s")
        case None
        with True \<open>epoch s = 0 \<and> \<not> is_model_free c \<and> \<not> is_static_dataset c\<close> assms
        show ?thesis by (simp add: initial_collection_def rank0_initial_collection_def)
      next
        case (Some r')
        from trace_ext_collect_initial_dataset[OF Some]
        have e: "trace_ext ?P s (final_state r')"
          by (rule trace_ext_mono) simp
        show ?thesis
        proof (cases r')
          case (Raises x t)
          with Some r0 \<open>epoch s = 0 \<and> \<not> is_model_free c \<and> \<not> is_static_dataset c\<close> assms e
          show ?thesis by (auto simp: initial_collection_def rank0_initial_collection_def)
        next
          case (Returns k t)
          with e have "trace_ext ?P s (t\<lparr>num_epochs_collect := Some k\<rparr>)"
            by (simp add: trace_ext_def)
          from bc[OF this] Returns Some r0
            \<open>epoch s = 0 \<and> \<not> is_model_free c \<and> \<not> is_static_dataset c\<close> assms
          show ?thesis by (auto simp: initial_collection_def rank0_initial_collection_def)
        qed
      qed
    qed
  qed
qed

section \<open>Runs that return\<close>

lemma epoch_loop_epoch:
  assumes "epoch_loop E c num_epochs s = Returns u s'"
  shows "epoch s' = (if epoch s < num_epochs then num_epochs else epoch s)"
  using assms
proof (induction E c num_epochs s rule: epoch_loop.induct)
  case (1 E c num_epochs s)
  show ?case
  proof (cases "epoch s < num_epochs")
    case False
    with "1.prems" show ?thesis
      by (subst (asm) epoch_loop.simps) (simp del: epoch_loop.simps)
  next
    case True
    let ?s1 = "s\<lparr>epoch := epoch s + 1\<rparr>"
    from "1.prems" True
    have "(case epoch_body E c ?s1 of Raises e t \<Rightarrow> Raises e t
           | Returns _ t \<Rightarrow> epoch_loop E c num_epochs t) = Returns u s'"
      by (subst (asm) epoch_loop.simps) (simp del: epoch_loop.simps)
    then obtain v t where t: "epoch_body E c ?s1 = Returns v t"
      and l: "epoch_loop E c num_epochs t = Returns u s'"
      by (cases "epoch_body E c ?s1") (simp_all del: epoch_loop.simps)
    from epoch_epoch_body[of E c ?s1] t have "epoch t = epoch s + 1" by simp
    with "1.IH"[OF True t l] True show ?thesis by (simp del: epoch_loop.simps)
  qed
qed

lemma epoch_body_returns_parts:
  assumes "epoch_body E c s = Returns u s'"
  obtains t1 t2 t3 where "train_collection E c s = Returns () t1"
    and "training_phase E c t1 = Returns () t2"
    and "evaluation E c t2 = Returns () t3"
    and "s' = logging_and_checkpoint E c t3"
proof -
  from assms obtain t1 where t1: "train_collection E c s = Returns () t1"
    by (cases "train_collection E c s") (auto simp: epoch_body_def)
  with assms obtain t2 where t2: "training_phase E c t1 = Returns () t2"
    by (cases "training_phase E c t1") (auto simp: epoch_body_def)
  with assms t1 obtain t3 where t3: "evaluation E c t2 = Returns () t3"
    by (cases "evaluation E c t2") (auto simp: epoch_body_def)
  with assms t1 t2 have "s' = logging_and_checkpoint E c t3"
    by (simp add: epoch_body_def)
  with t1 t2 t3 show thesis by (rule that)
qed

lemma evaluation_returns_every:
  assumes "evaluation E c s = Returns u s'"
  shows "rank c = 0 \<and> evaluation_should c \<longrightarrow> evaluation_every c \<noteq> 0"
  using assms by (auto simp: evaluation_def should_test_def split: if_splits)

lemma epochs_of_epoch_body_returns:
  assumes "epoch_body E c s = Returns u s'"
  shows "epochs_of (CollectTestCalled False) (trace s') =
           epochs_of (CollectTestCalled False) (trace s) @
             (if rank c = 0 \<and> evaluation_should c \<and> \<not> is_static_dataset c
                 \<and> epoch s mod evaluation_every c = 0 then [epoch s] else [])"
    and "epochs_of AgentEval (trace s') =
           epochs_of AgentEval (trace s) @
             (if rank c = 0 \<and> evaluation_should c \<and> \<not> is_model_free c
                 \<and> epoch s mod evaluation_every c = 0 then [epoch s] else [])"
    and "epochs_of SaveCheckpoint (trace s') =
           epochs_of SaveCheckpoint (trace s) @ (if rank c = 0 then [epoch s] else [])"
proof -
  from epoch_body_returns_parts[OF assms] obtain t1 t2 t3 where
    t1: "train_collection E c s = Returns () t1" and
    t2: "training_phase E c t1 = Returns () t2" and
    t3: "evaluation E c t2 = Returns () t3" and
    s': "s' = logging_and_checkpoint E c t3"
    by blast
  note ev = evaluation_returns_every[OF t3]
  have before: "epochs_of ev (trace t2) = epochs_of ev (trace s)"
    if ev: "ev = CollectTestCalled False \<or> ev = AgentEval \<or> ev = SaveCheckpoint" for ev
  proof -
    have "trace_ext (\<lambda>ev'. ev' \<noteq> ev) s (final_state (train_collection E c s))"
      using ev
      by (auto simp: train_collection_def should_collect_train_def Let_def
          split: sum.split option.splits if_splits intro!: trace_ext_emit)
    with t1 have 1: "epochs_of ev (trace t1) = epochs_of ev (trace s)"
      using epochs_of_trace_ext[of "\<lambda>ev'. ev' \<noteq> ev" s t1 ev] by simp
    have "trace_ext (\<lambda>ev'. ev' \<noteq> ev) t1 (final_state (train_agent E c t1))"
      by (rule trace_ext_train_agent) (use ev in auto)
    then have "trace_ext (\<lambda>ev'. ev' \<noteq> ev) t1 (final_state (training_phase E c t1))"
      by (simp add: training_phase_def)
    with t2 have 2: "epochs_of ev (trace t2) = epochs_of ev (trace t1)"
      using epochs_of_trace_ext[of "\<lambda>ev'. ev' \<noteq> ev" t1 t2 ev] by simp
    from 1 2 show ?thesis by simp
  qed
  have other: "epochs_of ev (trace t2) = epochs_of ev (trace s)
             \<and> epochs_of ev (trace (logging_and_checkpoint E c t3)) = epochs_of ev (trace t3)"
    if ev: "ev = CollectTestCalled False \<or> ev = AgentEval" for ev
  proof -
    have "trace_ext (\<lambda>ev'. ev' \<noteq> ev) s (final_state (train_collection E c s))"
      using ev
      by (auto simp: train_collection_def should_collect_train_def Let_def
          split: sum.split option.splits if_splits intro!: trace_ext_emit)
    with t1 have 1: "epochs_of ev (trace t1) = epochs_of ev (trace s)"
      using epochs_of_trace_ext[of "\<lambda>ev'. ev' \<noteq> ev" s t1 ev] by simp
    have "trace_ext (\<lambda>ev'. ev' \<noteq> ev) t1 (final_state (train_agent E c t1))"
      by (rule trace_ext_train_agent) (use ev in auto)
    then have "trace_ext (\<lambda>ev'. ev' \<noteq> ev) t1 (final_state (training_phase E c t1))"
      by (simp add: training_phase_def)
    with t2 have 2: "epochs_of ev (trace t2) = epochs_of ev (trace t1)"
      using epochs_of_trace_ext[of "\<lambda>ev'. ev' \<noteq> ev" t1 t2 ev] by simp
    have 3: "epochs_of ev (trace (logging_and_checkpoint E c t3)) = epochs_of ev (trace t3)"
      using ev by (auto simp: logging_and_checkpoint_def save_checkpoint_def Let_def)
    from 1 2 3 show ?thesis by simp
  qed
  have e2: "epoch t2 = epoch s"
    using epoch_train_collection[of E c s] epoch_training_phase[of E c t1] t1 t2 by simp
  show "epochs_of (CollectTestCalled False) (trace s') =
           epochs_of (CollectTestCalled False) (trace s) @
             (if rank c = 0 \<and> evaluation_should c \<and> \<not> is_static_dataset c
                 \<and> epoch s mod evaluation_every c = 0 then [epoch s] else [])"
    using epochs_of_evaluation(1)[OF ev, of E t2] other[of "CollectTestCalled False"] t3 s' e2
    by simp
  show "epochs_of AgentEval (trace s') =
           epochs_of AgentEval (trace s) @
             (if rank c = 0 \<and> evaluation_should c \<and> \<not> is_model_free c
                 \<and> epoch s mod evaluation_every c = 0 then [epoch s] else [])"
    using epochs_of_evaluation(2)[OF ev, of E t2] other[of AgentEval] t3 s' e2
    by simp
  have "epoch t3 = epoch t2"
    using epoch_evaluation[of E c t2] t3 by simp
  then show "epochs_of SaveCheckpoint (trace s') =
           epochs_of SaveCheckpoint (trace s) @ (if rank c = 0 then [epoch s] else [])"
    using epochs_of_evaluation(3)[OF ev, of E t2] before[of SaveCheckpoint] t3 s' e2
    by (simp add: logging_and_checkpoint_def save_checkpoint_def Let_def)
qed

lemma epoch_loop_returns_evaluation_epochs:
  assumes "epoch_loop E c num_epochs s = Returns u s'"
  shows "epochs_of (CollectTestCalled False) (trace s') =
           epochs_of (CollectTestCalled False) (trace s) @
             (if rank c = 0 \<and> evaluation_should c \<and> \<not> is_static_dataset c
              then filter (\<lambda>e. e mod evaluation_every c = 0) [epoch s + 1..num_epochs] else [])
      \<and> epochs_of AgentEval (trace s') =
           epochs_of AgentEval (trace s) @
             (if rank c = 0 \<and> evaluation_should c \<and> \<not> is_model_free c
              then filter (\<lambda>e. e mod evaluation_every c = 0) [epoch s + 1..num_epochs] else [])
      \<and> epochs_of SaveCheckpoint (trace s') =
           epochs_of SaveCheckpoint (trace s) @
             (if rank c = 0 then [epoch s + 1..num_epochs] else [])"
  using assms
proof (induction E c num_epochs s rule: epoch_loop.induct)
  case (1 E c num_epochs s)
  show ?case
  proof (cases "epoch s < num_epochs")
    case False
    with "1.prems" show ?thesis
      by (subst (asm) epoch_loop.simps) (simp del: epoch_loop.simps)
  next
    case True
    let ?s1 = "s\<lparr>epoch := epoch s + 1\<rparr>"
    from "1.prems" True
    have "(case epoch_body E c ?s1 of Raises e t \<Rightarrow> Raises e t
           | Returns _ t \<Rightarrow> epoch_loop E c num_epochs t) = Returns u s'"
      by (subst (asm) epoch_loop.simps) (simp del: epoch_loop.simps)
    then obtain v t where t: "epoch_body E c ?s1 = Returns v t"
      and l: "epoch_loop E c num_epochs t = Returns u s'"
      by (cases "epoch_body E c ?s1") (simp_all del: epoch_loop.simps)
    from epoch_epoch_body[of E c ?s1] t have et: "epoch t = epoch s + 1" by simp
    have up: "[epoch s + 1..num_epochs] = (epoch s + 1) # [epoch s + 1 + 1..num_epochs]"
      using True by (simp add: upto_rec1)
    from "1.IH"[OF True t l] epochs_of_epoch_body_returns[OF t] et
    show ?thesis unfolding up by (simp del: epoch_loop.simps)
  qed
qed


lemma epoch_increments [simp]: "epoch (increments E c steps s n) = epoch s"
  by (induction n arbitrary: steps s) simp_all

lemma epoch_initial_collection:
  assumes "initial_collection E c s = Some r"
  shows "epoch (final_state r) = epoch s"
proof (cases "epoch s = 0 \<and> \<not> is_model_free c \<and> \<not> is_static_dataset c \<and> rank c = 0")
  case False
  with assms show ?thesis
    by (auto simp: initial_collection_def broadcast_initial_def Let_def split: if_splits)
next
  case True
  show ?thesis
  proof (cases "collect_initial_dataset E c s")
    case None
    with True assms show ?thesis
      by (simp add: initial_collection_def rank0_initial_collection_def)
  next
    case (Some r')
    from Some have e: "epoch (final_state r') = epoch s"
    proof (cases "collect_loop E c (first_epoch_min c) s")
      case None
      with Some show ?thesis
        by (auto simp: collect_initial_dataset_def Let_def split: if_splits)
    next
      case (Some y)
      obtain m t where y: "y = (m, t)" by (cases y)
      from collect_loop_result[of E c "first_epoch_min c" s m t] Some y
      have "epoch t = epoch s" by auto
      with \<open>collect_initial_dataset E c s = Some r'\<close> Some y show ?thesis
        by (auto simp: collect_initial_dataset_def Let_def split: if_splits)
    qed
    show ?thesis
    proof (cases r')
      case (Raises x t)
      with Some True assms e show ?thesis
        by (auto simp: initial_collection_def rank0_initial_collection_def)
    next
      case (Returns k t)
      with Some True assms e show ?thesis
        by (auto simp: initial_collection_def rank0_initial_collection_def
            broadcast_initial_def Let_def)
    qed
  qed
qed

lemma run_returns_parts:
  assumes "run E c s = Some (Returns u s')"
  obtains s1 k s2 where "initial_collection E c s = Some (Returns () s1)"
    and "num_epochs_collect s1 = Some k"
    and "epoch_loop E c 2 s1 = Returns () s2"
    and "s' = final_sync E c (last_collect E c s2)"
proof -
  from assms obtain s1 where s1: "initial_collection E c s = Some (Returns () s1)"
    by (cases "initial_collection E c s"; cases "the (initial_collection E c s)")
       (auto simp: run_def)
  with assms obtain k where k: "num_epochs_collect s1 = Some k"
    by (cases "num_epochs_collect s1") (auto simp: run_def)
  with assms s1 obtain s2 where s2: "epoch_loop E c 2 s1 = Returns () s2"
    by (cases "epoch_loop E c 2 s1") (auto simp: run_def Let_def simp del: epoch_loop.simps)
  with assms s1 k have "s' = final_sync E c (last_collect E c s2)"
    by (simp add: run_def Let_def del: epoch_loop.simps)
  with s1 k s2 show thesis by (rule that)
qed

lemma trace_last_collect:
  "trace (last_collect E c s) =
     trace s @ (if rank c = 0 \<and> \<not> is_static_dataset c
                then map (Pair (epoch s))
                       [CollectTestCalled True, TestDatasetClear,
                        TestCollectorSend (num_final_episodes c),
                        FinalReturnStats (test_returns E (world
                          (emit E (TestCollectorSend (num_final_episodes c))
                            (emit E TestDatasetClear (emit E (CollectTestCalled True) s))))),
                        WandbLog]
                else [])"
  by (simp add: last_collect_def trace_collect_test)

lemma trace_final_sync:
  "trace (final_sync E c s) =
     trace s @ (if rank c = 0 \<and> wandb_run_present E (world s) then [(epoch s, WandbFinish)] else [])"
  by (simp add: final_sync_def)

lemma epoch_last_collect [simp]: "epoch (last_collect E c s) = epoch s"
  by (simp add: last_collect_def)

lemma epoch_final_sync [simp]: "epoch (final_sync E c s) = epoch s"
  by (simp add: final_sync_def)

lemma trace_ext_run_end:
  "trace_ext (\<lambda>ev. True) s (final_sync E c (last_collect E c s))"
  unfolding trace_ext_def by (simp add: trace_final_sync trace_last_collect)

section \<open>The evaluation cadence of a run\<close>

text \<open>
  Claim C7, as amended. In every run that returns, the epochs of the loop are those after
  the starting epoch up to the final one, each with its checkpoint saved on rank 0; on
  rank 0 with \<open>evaluation.should\<close> set, the test
  collection \<open>collect_test()\<close> happens at exactly those of them that \<open>evaluation.every\<close>
  divides unless the dataset is static, and \<open>test_agent\<close> at exactly those unless the run
  is model-free; on another rank or without \<open>evaluation.should\<close> neither happens at any
  epoch.
\<close>

theorem evaluation_cadence:
  assumes "run E c s = Some (Returns () s')"
  shows "epochs_of (CollectTestCalled False) (new_events s s') =
             (if rank c = 0 \<and> evaluation_should c \<and> \<not> is_static_dataset c
              then filter (\<lambda>e. e mod evaluation_every c = 0) [epoch s + 1..epoch s'] else [])
      \<and> epochs_of AgentEval (new_events s s') =
             (if rank c = 0 \<and> evaluation_should c \<and> \<not> is_model_free c
              then filter (\<lambda>e. e mod evaluation_every c = 0) [epoch s + 1..epoch s'] else [])
      \<and> epochs_of SaveCheckpoint (new_events s s') =
             (if rank c = 0 then [epoch s + 1..epoch s'] else [])"
proof -
  from run_returns_parts[OF assms] obtain s1 k s2 where
    s1: "initial_collection E c s = Some (Returns () s1)" and
    s2: "epoch_loop E c 2 s1 = Returns () s2" and
    s': "s' = final_sync E c (last_collect E c s2)"
    by blast
  from epoch_initial_collection[OF s1] have e1: "epoch s1 = epoch s" by simp
  from epoch_loop_epoch[OF s2] have e2: "epoch s2 = (if epoch s1 < 2 then 2 else epoch s1)" .
  have e': "epoch s' = epoch s2" by (simp add: s')
  have range: "[epoch s1 + 1..2] = [epoch s + 1..epoch s']"
    using e1 e2 e' by simp
  have init: "trace_ext (\<lambda>ev. ev = BroadcastDataset \<or> (\<exists>k. ev = TrainCollectorSend k)) s s1"
    using trace_ext_initial_collection[OF s1] by simp
  have loop: "trace_ext (loop_event c) s1 s2"
    using trace_ext_epoch_loop[of c s1 E 2] s2 by simp
  have ext: "trace_ext (\<lambda>ev. True) s s'"
  proof -
    from init have "trace_ext (\<lambda>ev. True) s s1" by (rule trace_ext_mono) simp
    moreover from loop have "trace_ext (\<lambda>ev. True) s1 s2" by (rule trace_ext_mono) simp
    moreover have "trace_ext (\<lambda>ev. True) s2 s'" unfolding s' by (rule trace_ext_run_end)
    ultimately show ?thesis by (blast intro: trace_ext_trans)
  qed
  have a: "epochs_of ev (trace s1) = epochs_of ev (trace s)
         \<and> epochs_of ev (trace s') = epochs_of ev (trace s2)"
    if "ev = CollectTestCalled False \<or> ev = AgentEval \<or> ev = SaveCheckpoint" for ev
    using that epochs_of_trace_ext[OF init, of ev]
    by (auto simp: s' trace_final_sync trace_last_collect)
  from epoch_loop_returns_evaluation_epochs[OF s2] a[of "CollectTestCalled False"] a[of AgentEval]
    a[of SaveCheckpoint]
  have "epochs_of (CollectTestCalled False) (trace s') =
           epochs_of (CollectTestCalled False) (trace s) @
             (if rank c = 0 \<and> evaluation_should c \<and> \<not> is_static_dataset c
              then filter (\<lambda>e. e mod evaluation_every c = 0) [epoch s + 1..epoch s'] else [])"
    and "epochs_of AgentEval (trace s') =
           epochs_of AgentEval (trace s) @
             (if rank c = 0 \<and> evaluation_should c \<and> \<not> is_model_free c
              then filter (\<lambda>e. e mod evaluation_every c = 0) [epoch s + 1..epoch s'] else [])"
    and "epochs_of SaveCheckpoint (trace s') =
           epochs_of SaveCheckpoint (trace s) @ (if rank c = 0 then [epoch s + 1..epoch s'] else [])"
    unfolding range by simp_all
  from epochs_of_new_events[OF ext this(1)] epochs_of_new_events[OF ext this(2)]
    epochs_of_new_events[OF ext this(3)]
  show ?thesis by simp
qed

theorem evaluation_cadence_witness:
  "epoch (final_state (the (run example_collab (example_cfg\<lparr>evaluation_every := 2\<rparr>) initial_state))) = 2
   \<and> epochs_of (CollectTestCalled False)
       (new_events initial_state
          (final_state (the (run example_collab (example_cfg\<lparr>evaluation_every := 2\<rparr>) initial_state))))
       = [2]
   \<and> epochs_of AgentEval
       (new_events initial_state
          (final_state (the (run example_collab (example_cfg\<lparr>evaluation_every := 2\<rparr>) initial_state))))
       = [2]
   \<and> epochs_of SaveCheckpoint
       (new_events initial_state
          (final_state (the (run example_collab (example_cfg\<lparr>evaluation_every := 2\<rparr>) initial_state))))
       = [1, 2]"
proof -
  let ?r = "run example_collab (example_cfg\<lparr>evaluation_every := 2\<rparr>) initial_state"
  have "case ?r of Some (Returns _ s') \<Rightarrow> epoch s' = 2 | _ \<Rightarrow> False"
    by code_simp
  then have ret: "?r = Some (Returns () (final_state (the ?r)))"
    and ep: "epoch (final_state (the ?r)) = 2"
    by (auto split: option.splits outcome.splits)
  have f: "filter (\<lambda>e. e mod 2 = 0) [(0::int) + 1..2] = [2]" "[(0::int) + 1..2] = [1, 2]"
    by code_simp+
  from evaluation_cadence[OF ret] ep f show ?thesis
    by (simp add: example_cfg_def initial_state_def)
qed

text \<open>
  The claim as stated fails where \<open>evaluation.should\<close> is false: in a run on rank 0 with
  \<open>evaluation.every = 1\<close> the loop goes through the epochs 1 and 2, both divisible by 1,
  and neither the test collection nor \<open>test_agent\<close> happens at either.
\<close>

theorem no_evaluation_unless_configured:
  "rank (example_cfg\<lparr>evaluation_should := False, evaluation_every := 1\<rparr>) = 0
   \<and> evaluation_every (example_cfg\<lparr>evaluation_should := False, evaluation_every := 1\<rparr>) = 1
   \<and> (case run example_collab (example_cfg\<lparr>evaluation_should := False, evaluation_every := 1\<rparr>)
            initial_state of
        Some (Returns _ s') \<Rightarrow>
          epochs_of SaveCheckpoint (trace s') = [1, 2]
          \<and> epochs_of (CollectTestCalled False) (trace s') = []
          \<and> epochs_of AgentEval (trace s') = []
      | _ \<Rightarrow> False)"
  by code_simp

section \<open>The outside world follows the trace\<close>

lemma replay_append: "replay E w (xs @ ys) = replay E (replay E w xs) ys"
  by (simp add: replay_def)

lemma replay_simps [simp]:
  "replay E w [] = w"
  "replay E w (xs @ [(e, ev)]) = react E ev (replay E w xs)"
  by (simp_all add: replay_def)

lemma world_follows_refl [simp]: "world_follows E s s"
  by (simp add: world_follows_def)

lemma world_follows_trans:
  "world_follows E s t \<Longrightarrow> world_follows E t u \<Longrightarrow> world_follows E s u"
  unfolding world_follows_def by (metis append.assoc replay_append)

lemma world_follows_emit: "world_follows E s t \<Longrightarrow> world_follows E s (emit E ev t)"
proof -
  assume "world_follows E s t"
  then obtain evs where "trace t = trace s @ evs" "world t = replay E (world s) evs"
    unfolding world_follows_def by blast
  then have "trace (emit E ev t) = trace s @ (evs @ [(epoch t, ev)])
      \<and> world (emit E ev t) = replay E (world s) (evs @ [(epoch t, ev)])"
    by (simp add: emit_def)
  then show ?thesis unfolding world_follows_def by blast
qed

lemma world_follows_same:
  "trace t' = trace t \<Longrightarrow> world t' = world t \<Longrightarrow> world_follows E s t' = world_follows E s t"
  by (simp add: world_follows_def)

lemma world_follows_and_then:
  assumes "world_follows E s (final_state r)" and "\<And>t. world_follows E t (final_state (f t))"
  shows "world_follows E s (final_state (and_then r f))"
proof (cases r)
  case (Returns u t)
  with assms(1) assms(2)[of t] show ?thesis by (auto intro: world_follows_trans)
next
  case (Raises e t)
  with assms(1) show ?thesis by simp
qed

lemma world_follows_new_events:
  assumes "world_follows E s s'"
  shows "world s' = replay E (world s) (new_events s s')"
  using assms unfolding world_follows_def new_events_def by auto

lemma world_follows_optimizer_update: "world_follows E s (optimizer_update E c name s)"
  unfolding optimizer_update_def Let_def by (auto intro!: world_follows_emit)

lemma world_follows_train_step: "world_follows E s (final_state (train_step E c name i s))"
proof -
  let ?t = "emit E (Backward name) (emit E (Forward name) s)"
  let ?u = "?t\<lparr>num_batch_train := (num_batch_train ?t)(name := num_batch_train ?t name + 1)\<rparr>"
  have "world_follows E s ?t" by (auto intro!: world_follows_emit)
  then have u: "world_follows E s ?u" by (simp add: world_follows_def)
  from u world_follows_optimizer_update[of E ?u c name]
  have "world_follows E s (optimizer_update E c name ?u)" by (rule world_follows_trans)
  with u show ?thesis by (simp add: train_step_def Let_def)
qed

lemma world_follows_train_steps: "world_follows E s (final_state (train_steps E c name is s))"
proof (induction "is" arbitrary: s)
  case Nil
  show ?case by simp
next
  case (Cons i "is")
  show ?case using Cons.IH
    by (auto intro!: world_follows_and_then world_follows_train_step)
qed

lemma world_follows_train_component:
  "world_follows E s (final_state (train_component E c name k s))"
proof -
  let ?t = "emit E (OptZeroGrad name) (emit E (ModelTrain name) (emit E (TrainComponentCalled name k) s))"
  have "world_follows E s ?t" by (auto intro!: world_follows_emit)
  from this world_follows_train_steps show ?thesis
    unfolding train_component_def Let_def by (rule world_follows_trans)
qed

lemma world_follows_train_components:
  "world_follows E s (final_state (train_components E c names s))"
proof (induction names arbitrary: s)
  case Nil
  show ?case by simp
next
  case (Cons name names)
  show ?case using Cons.IH
    by (auto simp: Let_def intro!: world_follows_and_then world_follows_train_component)
qed

lemma world_follows_train_agent: "world_follows E s (final_state (train_agent E c s))"
proof -
  have "world_follows E s (emit E AgentZeroGrad (emit E AgentTrain s))"
    by (auto intro!: world_follows_emit)
  from this world_follows_train_components show ?thesis
    unfolding train_agent_def Let_def by (rule world_follows_trans)
qed

lemma world_follows_test_components: "world_follows E s (test_components E c names s)"
proof (induction names arbitrary: s)
  case Nil
  show ?case by simp
next
  case (Cons name names)
  have "world_follows E s (test_component E name s)"
    unfolding test_component_def by (auto intro!: world_follows_emit)
  with Cons.IH show ?case by (auto intro: world_follows_trans)
qed

lemma world_follows_test_agent: "world_follows E s (test_agent E c s)"
proof -
  have "world_follows E s (emit E AgentEval s)" by (auto intro!: world_follows_emit)
  from this world_follows_test_components show ?thesis
    unfolding test_agent_def Let_def by (rule world_follows_trans)
qed

lemma world_follows_collect_test: "world_follows E s (collect_test E c final s)"
proof -
  have g: "world_follows E s (emit E ev3 (emit E ev2 (emit E ev1 s)))" for ev1 ev2 ev3
    by (auto intro!: world_follows_emit)
  have u: "world_follows E s (t\<lparr>num_episodes_test := x\<rparr>)" if "world_follows E s t" for t x
    using that by (simp add: world_follows_def)
  show ?thesis
  proof (cases final)
    case True
    then show ?thesis
      by (simp add: collect_test_def Let_def) (intro world_follows_emit u g)
  next
    case False
    then show ?thesis
      by (simp add: collect_test_def Let_def) (intro u g)
  qed
qed

lemma world_follows_train_collection:
  "world_follows E s (final_state (train_collection E c s))"
  by (auto simp: train_collection_def Let_def split: sum.split intro!: world_follows_emit)

lemma world_follows_training_phase:
  "world_follows E s (final_state (training_phase E c s))"
  by (simp add: training_phase_def world_follows_train_agent)

lemma world_follows_evaluation: "world_follows E s (final_state (evaluation E c s))"
proof -
  have "world_follows E s (test_agent E c (collect_test E c False s))"
    by (rule world_follows_trans[OF world_follows_collect_test world_follows_test_agent])
  then show ?thesis
    by (simp add: evaluation_def Let_def world_follows_collect_test world_follows_test_agent
        split: sum.split)
qed

lemma world_follows_logging: "world_follows E s (logging_and_checkpoint E c s)"
  by (auto simp: logging_and_checkpoint_def save_checkpoint_def Let_def intro!: world_follows_emit)

lemma world_follows_epoch_body: "world_follows E s (final_state (epoch_body E c s))"
  unfolding epoch_body_def
  by (intro world_follows_and_then world_follows_train_collection world_follows_training_phase
        world_follows_evaluation) (simp add: world_follows_logging)

lemma world_follows_epoch_loop:
  "world_follows E s (final_state (epoch_loop E c num_epochs s))"
proof (induction E c num_epochs s rule: epoch_loop.induct)
  case (1 E c num_epochs s)
  show ?case
  proof (cases "epoch s < num_epochs")
    case False
    then show ?thesis by simp
  next
    case True
    let ?s1 = "s\<lparr>epoch := epoch s + 1\<rparr>"
    have b: "world_follows E s (final_state (epoch_body E c ?s1))"
      using world_follows_epoch_body[of E ?s1 c] by (simp add: world_follows_def)
    show ?thesis
    proof (cases "epoch_body E c ?s1")
      case (Raises e t)
      with b True show ?thesis by (subst epoch_loop.simps) (simp del: epoch_loop.simps)
    next
      case (Returns u t)
      with b have "world_follows E s t" by simp
      moreover from 1[OF True Returns]
      have "world_follows E t (final_state (epoch_loop E c num_epochs t))" .
      ultimately have "world_follows E s (final_state (epoch_loop E c num_epochs t))"
        by (rule world_follows_trans)
      with Returns True show ?thesis by (subst epoch_loop.simps) (simp del: epoch_loop.simps)
    qed
  qed
qed

lemma world_follows_increments: "world_follows E s (increments E c steps s n)"
proof (induction n arbitrary: steps s)
  case 0
  show ?case by (auto intro!: world_follows_emit)
next
  case (Suc n)
  have "world_follows E s (emit E (TrainCollectorSend steps) s)"
    by (auto intro!: world_follows_emit)
  from this Suc show ?case by (auto intro: world_follows_trans)
qed

lemma world_follows_collect_initial_dataset:
  assumes "collect_initial_dataset E c s = Some r"
  shows "world_follows E s (final_state r)"
proof (cases "collect_steps_per_epoch c = 0 \<or> first_epoch_min c mod collect_steps_per_epoch c \<noteq> 0")
  case True
  with assms show ?thesis
    by (auto simp: collect_initial_dataset_def Let_def split: if_splits)
next
  case False
  with assms obtain m s' where l: "collect_loop E c (first_epoch_min c) s = Some (m, s')"
    by (auto simp: collect_initial_dataset_def Let_def split: option.splits)
  from collect_loop_result[OF l] obtain n where "s' = increments E c (first_epoch_min c) s n"
    by blast
  then have "world_follows E s s'" by (simp add: world_follows_increments)
  with assms l False show ?thesis
    by (auto simp: collect_initial_dataset_def Let_def split: if_splits)
qed

lemma world_follows_initial_collection:
  assumes "initial_collection E c s = Some r"
  shows "world_follows E s (final_state r)"
proof -
  have bc: "world_follows E s (broadcast_initial E c t)" if "world_follows E s t" for t
    unfolding broadcast_initial_def Let_def
    by (rule world_follows_emit) (use that in \<open>simp add: world_follows_def\<close>)
  show ?thesis
  proof (cases "epoch s = 0 \<and> \<not> is_model_free c \<and> \<not> is_static_dataset c")
    case False
    with assms show ?thesis
      by (auto simp: initial_collection_def world_follows_def split: if_splits)
  next
    case True
    show ?thesis
    proof (cases "rank c = 0")
      case False
      with True assms bc[of s] show ?thesis by (auto simp: initial_collection_def)
    next
      case True
      note r0 = this
      show ?thesis
      proof (cases "collect_initial_dataset E c s")
        case None
        with True \<open>epoch s = 0 \<and> \<not> is_model_free c \<and> \<not> is_static_dataset c\<close> assms
        show ?thesis by (simp add: initial_collection_def rank0_initial_collection_def)
      next
        case (Some r')
        from world_follows_collect_initial_dataset[OF Some]
        have e: "world_follows E s (final_state r')" .
        show ?thesis
        proof (cases r')
          case (Raises x t)
          with Some r0 \<open>epoch s = 0 \<and> \<not> is_model_free c \<and> \<not> is_static_dataset c\<close> assms e
          show ?thesis by (auto simp: initial_collection_def rank0_initial_collection_def)
        next
          case (Returns k t)
          with e have "world_follows E s (t\<lparr>num_epochs_collect := Some k\<rparr>)"
            by (simp add: world_follows_def)
          from bc[OF this] Returns Some r0
            \<open>epoch s = 0 \<and> \<not> is_model_free c \<and> \<not> is_static_dataset c\<close> assms
          show ?thesis by (auto simp: initial_collection_def rank0_initial_collection_def)
        qed
      qed
    qed
  qed
qed

section \<open>The final test collection of a run\<close>

text \<open>
  \<open>run\<close> returns when the initial collection does and nothing in the loop raises; a
  model-free run and a run on a static dataset have no initial collection to wait for.
\<close>

lemma run_returns:
  assumes "initial_collection E c s = Some (Returns () s1)"
    and "num_epochs_collect s1 \<noteq> None"
    and "rank c = 0 \<and> evaluation_should c \<longrightarrow> evaluation_every c \<noteq> 0"
    and "training_should c \<longrightarrow> (\<forall>name. grad_acc_steps (training c name) \<noteq> 0)"
  shows "\<exists>s'. run E c s = Some (Returns () s')"
proof -
  from assms(2) obtain k where k: "num_epochs_collect s1 = Some k" by blast
  from assms(2) have "rank c = 0 \<and> \<not> is_model_free c \<and> \<not> is_static_dataset c
      \<longrightarrow> num_epochs_collect s1 \<noteq> None" by simp
  from epoch_loop_evaluation_epochs[OF assms(3,4) this, of E 2] obtain s2 where
    "epoch_loop E c 2 s1 = Returns () s2" by blast
  with assms(1) k show ?thesis by (simp add: run_def Let_def del: epoch_loop.simps)
qed

lemma run_returns_without_initial_collection:
  assumes "epoch s = 0" and "is_model_free c \<or> is_static_dataset c"
    and "rank c = 0 \<and> evaluation_should c \<longrightarrow> evaluation_every c \<noteq> 0"
    and "training_should c \<longrightarrow> (\<forall>name. grad_acc_steps (training c name) \<noteq> 0)"
  shows "\<exists>s'. run E c s = Some (Returns () s')"
proof -
  from assms(1,2) have "initial_collection E c s = Some (Returns () (s\<lparr>num_epochs_collect := Some 0\<rparr>))"
    by (simp add: initial_collection_def)
  from run_returns[OF this _ assms(3,4)] show ?thesis by simp
qed

text \<open>
  Claim C8, as amended. When \<open>run\<close> returns, it has made exactly one final test collection
  if it runs on rank 0 with a dataset that is not static, and none otherwise, whatever
  the evaluation cadence. That collection comes after all that the initial collection
  and the epoch loop did: it clears the test dataset, asks the test collector for
  \<open>collection.test.num_final_episodes\<close> episodes, and logs the record of the mean and the
  standard deviation of the returns of the episodes the collector then answered with;
  only \<open>wandb.finish()\<close> can follow it.
\<close>

theorem final_test_collection:
  assumes "run E c s = Some (Returns () s')"
  shows "occurrences (CollectTestCalled True) (new_events s s')
           = (if rank c = 0 \<and> \<not> is_static_dataset c then 1 else 0)
       \<and> (rank c = 0 \<and> \<not> is_static_dataset c \<longrightarrow>
            (\<exists>pre fin.
               new_events s s' =
                 pre @ map (Pair (epoch s'))
                   [CollectTestCalled True, TestDatasetClear,
                    TestCollectorSend (num_final_episodes c),
                    FinalReturnStats (test_returns E (replay E (world s)
                      (pre @ map (Pair (epoch s'))
                         [CollectTestCalled True, TestDatasetClear,
                          TestCollectorSend (num_final_episodes c)]))),
                    WandbLog] @ fin
               \<and> list_all (\<lambda>x. snd x \<noteq> CollectTestCalled True
                               \<and> (\<forall>returns. snd x \<noteq> FinalReturnStats returns)
                               \<and> snd x \<noteq> WandbFinish) pre
               \<and> (fin = [] \<or> fin = [(epoch s', WandbFinish)])))"
proof -
  from run_returns_parts[OF assms] obtain s1 k s2 where
    s1: "initial_collection E c s = Some (Returns () s1)" and
    s2: "epoch_loop E c 2 s1 = Returns () s2" and
    s': "s' = final_sync E c (last_collect E c s2)"
    by blast
  let ?R = "\<lambda>ev. ev \<noteq> CollectTestCalled True \<and> (\<forall>returns. ev \<noteq> FinalReturnStats returns)
                 \<and> ev \<noteq> WandbFinish"
  let ?pre = "new_events s s2"
  have loop_R: "?R ev" if "loop_event c ev" for ev
    using that by (cases ev) auto
  from trace_ext_initial_collection[OF s1] have "trace_ext ?R s s1"
    by (auto elim: trace_ext_mono)
  moreover from trace_ext_epoch_loop[of c s1 E 2] s2 have "trace_ext ?R s1 s2"
    using loop_R by (auto elim!: trace_ext_mono simp del: epoch_loop.simps)
  ultimately have q: "trace_ext ?R s s2" by (rule trace_ext_trans)
  note pre = trace_ext_new_events[OF q]
  have wf: "world_follows E s s2"
  proof -
    from world_follows_initial_collection[OF s1] have "world_follows E s s1" by simp
    moreover from world_follows_epoch_loop[of E s1 c 2] s2 have "world_follows E s1 s2"
      by (simp del: epoch_loop.simps)
    ultimately show ?thesis by (rule world_follows_trans)
  qed
  have e: "epoch s' = epoch s2" by (simp add: s')
  have occ0: "occurrences (CollectTestCalled True) ?pre = 0"
    using pre(2) by (auto simp: occurrences_def filter_empty_conv)
  let ?fin = "if rank c = 0 \<and> wandb_run_present E (world (last_collect E c s2))
              then [(epoch s2, WandbFinish)] else []"
  show ?thesis
  proof (cases "rank c = 0 \<and> \<not> is_static_dataset c")
    case False
    then have "trace s' = trace s @ ?pre @ ?fin"
      using pre(1) by (auto simp: s' trace_final_sync trace_last_collect)
    then have "new_events s s' = ?pre @ ?fin" by (simp add: new_events_def)
    with occ0 False show ?thesis by auto
  next
    case True
    let ?head = "map (Pair (epoch s2))
        [CollectTestCalled True, TestDatasetClear, TestCollectorSend (num_final_episodes c)]"
    have w: "world (emit E (TestCollectorSend (num_final_episodes c))
                (emit E TestDatasetClear (emit E (CollectTestCalled True) s2)))
             = replay E (world s) (?pre @ ?head)"
      using world_follows_new_events[OF wf] by (simp add: emit_def replay_def)
    let ?block = "map (Pair (epoch s2))
        [CollectTestCalled True, TestDatasetClear, TestCollectorSend (num_final_episodes c),
         FinalReturnStats (test_returns E (replay E (world s) (?pre @ ?head))), WandbLog]"
    from True have "trace s' = trace s @ ?pre @ ?block @ ?fin"
      using pre(1) by (simp add: s' trace_final_sync trace_last_collect w)
    then have n: "new_events s s' = ?pre @ ?block @ ?fin" by (simp add: new_events_def)
    have 1: "occurrences (CollectTestCalled True) (new_events s s') = 1"
      unfolding n using occ0 by simp
    have 2: "list_all (\<lambda>x. ?R (snd x)) ?pre"
      using pre(2) by (simp add: list_all_iff)
    have 3: "?fin = [] \<or> ?fin = [(epoch s', WandbFinish)]"
      by (simp add: e)
    from n 2 3 have "\<exists>pre fin.
               new_events s s' =
                 pre @ map (Pair (epoch s'))
                   [CollectTestCalled True, TestDatasetClear,
                    TestCollectorSend (num_final_episodes c),
                    FinalReturnStats (test_returns E (replay E (world s)
                      (pre @ map (Pair (epoch s'))
                         [CollectTestCalled True, TestDatasetClear,
                          TestCollectorSend (num_final_episodes c)]))),
                    WandbLog] @ fin
               \<and> list_all (\<lambda>x. ?R (snd x)) pre
               \<and> (fin = [] \<or> fin = [(epoch s', WandbFinish)])"
      unfolding e by blast
    with 1 True show ?thesis by simp
  qed
qed

theorem final_test_collection_witness:
  "occurrences (CollectTestCalled True)
      (new_events initial_state (final_state (the (run example_collab example_cfg initial_state)))) = 1
   \<and> (\<exists>pre fin.
        new_events initial_state (final_state (the (run example_collab example_cfg initial_state))) =
          pre @ map (Pair 2)
            [CollectTestCalled True, TestDatasetClear, TestCollectorSend 100,
             FinalReturnStats [1, 3], WandbLog] @ fin
        \<and> list_all (\<lambda>x. snd x \<noteq> CollectTestCalled True
                        \<and> (\<forall>returns. snd x \<noteq> FinalReturnStats returns)
                        \<and> snd x \<noteq> WandbFinish) pre
        \<and> (fin = [] \<or> fin = [(2, WandbFinish)]))"
proof -
  let ?r = "run example_collab example_cfg initial_state"
  have "case ?r of Some (Returns _ s') \<Rightarrow> epoch s' = 2 | _ \<Rightarrow> False"
    by code_simp
  then have ret: "?r = Some (Returns () (final_state (the ?r)))"
    and ep: "epoch (final_state (the ?r)) = 2"
    by (auto split: option.splits outcome.splits)
  have c: "rank example_cfg = 0" "\<not> is_static_dataset example_cfg"
    "num_final_episodes example_cfg = 100"
    by (simp_all add: example_cfg_def)
  have t: "test_returns example_collab w = [1, 3]" for w
    by (simp add: example_collab_def)
  from final_test_collection[OF ret] c show ?thesis
    unfolding ep t by simp
qed

text \<open>
  The claim as stated fails in two ways. On a static dataset \<open>run\<close> returns without any
  final test collection. And the final collection of the example run is not uncapped: the
  test collector is asked for the 100 episodes of \<open>collection.test.num_final_episodes\<close>,
  and \<open>num_episodes_test\<close> grows by these 100.
\<close>

theorem final_collection_is_gated_and_capped:
  "(case run example_collab (example_cfg\<lparr>is_static_dataset := True\<rparr>) initial_state of
      Some (Returns _ s') \<Rightarrow>
        occurrences (CollectTestCalled True) (trace s') = 0
        \<and> occurrences (TestCollectorSend 100) (trace s') = 0
    | _ \<Rightarrow> False)
   \<and> num_final_episodes example_cfg = 100
   \<and> num_episodes_test initial_state = 0
   \<and> (case run example_collab example_cfg initial_state of
        Some (Returns _ s') \<Rightarrow>
          occurrences (CollectTestCalled True) (trace s') = 1
          \<and> occurrences (TestCollectorSend 100) (trace s') = 1
          \<and> num_episodes_test s' = 100
      | _ \<Rightarrow> False)"
  by code_simp

end
